theory Spec2Isabelle
  imports Complex_Main
begin

section \<open>The mixdown of tracks: Mix.cpp\<close>

text \<open>
  A shallow embedding of \<^verbatim>\<open>libraries/lib-sample-track/Mix.cpp\<close>: the class
  \<^verbatim>\<open>Mixer\<close> with its constructor, \<^verbatim>\<open>Clear\<close>, \<^verbatim>\<open>MixBuffers\<close>, \<^verbatim>\<open>Process\<close> (with its
  local lambda \<^verbatim>\<open>findChannelFlags\<close>), \<^verbatim>\<open>GetBuffer\<close>, \<^verbatim>\<open>Reposition\<close>,
  \<^verbatim>\<open>SetTimesAndSpeed\<close> and \<^verbatim>\<open>SetSpeedForKeyboardScrubbing\<close>.

  Conventions of the embedding.
  \<^item> A \<^verbatim>\<open>double\<close> holding a time or a speed is a \<open>real\<close>: the functions below only
    compare, clamp, negate and copy such values, which is exact on doubles; the values
    NaN and the infinities are not represented, so \<^verbatim>\<open>std::isfinite\<close> holds of every
    value and \<^verbatim>\<open>wxASSERT(std::isfinite(speed))\<close> never fires.
  \<^item> A \<^verbatim>\<open>float\<close> sample or gain is a \<open>real\<close>; rounding of the accumulation is not
    represented.
  \<^item> \<^verbatim>\<open>size_t\<close> and \<^verbatim>\<open>unsigned\<close> counts are \<open>nat\<close>.
  \<^item> A failed \<^verbatim>\<open>assert\<close> and an access outside an array are results of their own
    (\<open>Inl AssertionFailed\<close>, \<open>Inl OutOfBounds\<close>); a member function that can do either
    returns \<open>error + 'a\<close>.
  \<^item> Member functions take the object and return the updated object.
  \<^item> The class \<^verbatim>\<open>MixerSource\<close> (MixerSource.h, MixerSource.cpp) is not part of the
    sources at hand. Its data that \<^verbatim>\<open>Mixer\<close> reads is a record; its member functions
    \<^verbatim>\<open>Acquire\<close> and \<^verbatim>\<open>Reposition\<close> are parameters of the functions that call them.
\<close>

datatype error = AssertionFailed | OutOfBounds

definition nth_checked :: "'a list \<Rightarrow> nat \<Rightarrow> error + 'a" where
  "nth_checked xs i = (if i < length xs then Inr (xs ! i) else Inl OutOfBounds)"

subsection \<open>Data\<close>

text \<open>
  \<^verbatim>\<open>Track::ChannelType\<close>: the three enumerators, and \<open>UnknownChannel k\<close> for a
  value \<open>k\<close> of the underlying integer type that is none of theirs, which the
  \<^verbatim>\<open>switch\<close> of \<^verbatim>\<open>findChannelFlags\<close> sends to \<^verbatim>\<open>default\<close>.
\<close>

datatype ChannelType = LeftChannel | RightChannel | MonoChannel | UnknownChannel int

text \<open>What \<^verbatim>\<open>Process\<close> reads of a channel of a track: \<^verbatim>\<open>GetChannel()\<close> and
  \<^verbatim>\<open>GetChannelGain(c)\<close>.\<close>

record SampleTrack =
  GetChannel :: ChannelType
  GetChannelGain :: "nat \<Rightarrow> real"

text \<open>\<^verbatim>\<open>struct TimesAndSpeed\<close>, shared by the mixer and all its sources.\<close>

record TimesAndSpeed =
  mT0 :: real
  mT1 :: real
  mSpeed :: real
  mTime :: real

text \<open>\<^verbatim>\<open>class MixerSpec\<close>: the counts the constructor compares, and the map, one row
  of booleans per input track.\<close>

record MixerSpec =
  GetNumChannels :: nat
  GetNumTracks :: nat
  mMap :: "bool list list"

text \<open>
  Modelled from the spec: \<^verbatim>\<open>class MixerSource\<close> is declared and defined outside the
  sources at hand. A source stands for one leader with its channel group; it holds the
  channels of the group (\<^verbatim>\<open>Channels()\<close>, \<^verbatim>\<open>GetChannel(i)\<close>), the pointer into the
  map of the mixer specification that the constructor of \<^verbatim>\<open>Mixer\<close> passes (null, or
  the rows from the leader's on; \<^verbatim>\<open>MixerSpec(i)\<close> is row \<open>i\<close> from there), and a state
  of its own (resampler, queue, sample position) of which nothing is assumed.
\<close>

record 'st MixerSource =
  mChannels :: "SampleTrack list"
  mpMap :: "bool list list option"
  mState :: 'st

definition MixerSource_Channels :: "'st MixerSource \<Rightarrow> nat" where
  "MixerSource_Channels source = length (mChannels source)"

definition MixerSource_GetChannel :: "'st MixerSource \<Rightarrow> nat \<Rightarrow> error + SampleTrack" where
  "MixerSource_GetChannel source j = nth_checked (mChannels source) j"

definition MixerSource_MixerSpec :: "'st MixerSource \<Rightarrow> nat \<Rightarrow> error + bool list option" where
  "MixerSource_MixerSpec source j =
     (case mpMap source of
        None \<Rightarrow> Inr None
      | Some rows \<Rightarrow> (case nth_checked rows j of Inl e \<Rightarrow> Inl e | Inr row \<Rightarrow> Inr (Some row)))"

text \<open>
  The two member functions of \<^verbatim>\<open>MixerSource\<close> that \<^verbatim>\<open>Mixer\<close> calls, as parameters.
  \<^verbatim>\<open>Acquire(mFloatBuffers, maxToProcess)\<close> reads the shared \<^verbatim>\<open>TimesAndSpeed\<close> and
  gives the optional count of frames produced, the source's new state, the new contents
  of the float buffers and the new value of the shared \<^verbatim>\<open>mTime\<close>; nothing is
  assumed of these. Of the shared \<^verbatim>\<open>TimesAndSpeed\<close> a source writes \<^verbatim>\<open>mTime\<close> only:
  the bounds and the speed are changed by the functions of the mixer alone.
  \<^verbatim>\<open>Reposition(time, skipping)\<close> gives the source's new state.
\<close>

type_synonym 'st Acquire =
  "'st MixerSource \<Rightarrow> real list list \<Rightarrow> nat \<Rightarrow> TimesAndSpeed \<Rightarrow>
     nat option \<times> 'st \<times> real list list \<times> real"

type_synonym 'st SourceReposition = "'st MixerSource \<Rightarrow> real \<Rightarrow> bool \<Rightarrow> 'st"

datatype sampleFormat = int16Sample | int24Sample | floatSample

text \<open>\<^verbatim>\<open>SampleBuffer::Allocate(count, format)\<close>: a buffer of \<open>count\<close> samples of a
  format. The converted samples themselves are not represented.\<close>

record SampleBuffer =
  mCount :: nat
  mSampleFormat :: sampleFormat

record 'st Mixer =
  mNumChannels :: nat
  mBufferSize :: nat
  mApplyTrackGains :: bool
  mHighQuality :: bool
  mFormat :: sampleFormat
  mInterleaved :: bool
  mTimesAndSpeed :: TimesAndSpeed
  mFloatBuffers :: "real list list"
  mTemp :: "real list list"
  mBuffer :: "SampleBuffer list"
  mSources :: "'st MixerSource list"

subsection \<open>The constructor\<close>

text \<open>\<^verbatim>\<open>initVector\<close>: \<open>dim1\<close> elements, each initialised the same way.\<close>

definition initVector :: "nat \<Rightarrow> 'a \<Rightarrow> 'a list" where
  "initVector dim1 row = replicate dim1 row"

text \<open>
  The loop of the constructor over the input tracks. \<open>channelsOf\<close> stands for
  \<^verbatim>\<open>TrackList::Channels\<close> and \<open>newState\<close> for what the constructor of \<^verbatim>\<open>MixerSource\<close>
  builds from the leader and the remaining arguments; \<open>None\<close> in the list of tracks is
  a null pointer, for which the loop asserts. The loop does not advance when a leader
  has no channels, so it is a partial function: \<open>None\<close> is the loop that runs forever.
\<close>

partial_function (option) Mixer_sources ::
  "(SampleTrack \<Rightarrow> SampleTrack list) \<Rightarrow> (SampleTrack \<Rightarrow> 'st) \<Rightarrow> SampleTrack option list \<Rightarrow>
   MixerSpec option \<Rightarrow> nat \<Rightarrow> 'st MixerSource list \<Rightarrow> (error + 'st MixerSource list) option"
where
  "Mixer_sources channelsOf newState inputTracks pMixerSpec i sources =
     (if i < length inputTracks then
        (case inputTracks ! i of
           None \<Rightarrow> Some (Inl AssertionFailed)
         | Some leader \<Rightarrow>
             (if i + length (channelsOf leader) > length inputTracks
              then Some (Inl AssertionFailed)
              else Mixer_sources channelsOf newState inputTracks pMixerSpec
                     (i + length (channelsOf leader))
                     (sources @
                       [\<lparr> mChannels = channelsOf leader,
                          mpMap = (case pMixerSpec of
                                     Some spec \<Rightarrow> Some (drop i (mMap spec))
                                   | None \<Rightarrow> None),
                          mState = newState leader \<rparr>])))
      else Some (Inr sources))"

text \<open>The mixer specification the constructor keeps: the one given, when its counts
  agree with the output channels and the input tracks, and none otherwise.\<close>

definition pMixerSpec_of :: "MixerSpec option \<Rightarrow> nat \<Rightarrow> nat \<Rightarrow> MixerSpec option" where
  "pMixerSpec_of mixerSpec numChannels nTracks =
     (case mixerSpec of
        None \<Rightarrow> None
      | Some spec \<Rightarrow>
          (if GetNumChannels spec = numChannels \<and> GetNumTracks spec = nTracks
           then Some spec else None))"

text \<open>\<^verbatim>\<open>Mixer::Mixer\<close>. Of \<^verbatim>\<open>warpOptions\<close> only \<^verbatim>\<open>initialSpeed\<close> is read here; the
  arguments that are only handed on to the sources are part of \<open>newState\<close>. The float
  buffers are \<^verbatim>\<open>mFloatBuffers{ 2, mBufferSize, 1, 1 }\<close>: two channels, each of one block
  of \<^verbatim>\<open>mBufferSize\<close> samples and one sample of padding. The assertion
  \<^verbatim>\<open>BufferSize() == outBufferSize\<close> holds by the initialiser of \<^verbatim>\<open>mBufferSize\<close>.\<close>

definition Mixer_Mixer ::
  "(SampleTrack \<Rightarrow> SampleTrack list) \<Rightarrow> (SampleTrack \<Rightarrow> 'st) \<Rightarrow> SampleTrack option list \<Rightarrow>
   real \<Rightarrow> real \<Rightarrow> real \<Rightarrow> nat \<Rightarrow> nat \<Rightarrow> bool \<Rightarrow> sampleFormat \<Rightarrow> bool \<Rightarrow>
   MixerSpec option \<Rightarrow> bool \<Rightarrow> (error + 'st Mixer) option" where
  "Mixer_Mixer channelsOf newState inputTracks initialSpeed startTime stopTime
     numOutChannels outBufferSize outInterleaved outFormat highQuality mixerSpec
     applyTrackGains =
   (case Mixer_sources channelsOf newState inputTracks
           (pMixerSpec_of mixerSpec numOutChannels (length inputTracks)) 0 [] of
      None \<Rightarrow> None
    | Some (Inl e) \<Rightarrow> Some (Inl e)
    | Some (Inr sources) \<Rightarrow>
        Some (Inr
          \<lparr> mNumChannels = numOutChannels,
            mBufferSize = outBufferSize,
            mApplyTrackGains = applyTrackGains,
            mHighQuality = highQuality,
            mFormat = outFormat,
            mInterleaved = outInterleaved,
            mTimesAndSpeed =
              \<lparr> mT0 = startTime, mT1 = stopTime, mSpeed = initialSpeed, mTime = startTime \<rparr>,
            mFloatBuffers = replicate 2 (replicate (outBufferSize * 1 + 1) 0),
            mTemp = initVector numOutChannels (replicate outBufferSize 0),
            mBuffer =
              initVector (if outInterleaved then 1 else numOutChannels)
                \<lparr> mCount = outBufferSize * (if outInterleaved then numOutChannels else 1),
                  mSampleFormat = outFormat \<rparr>,
            mSources = sources \<rparr>))"

subsection \<open>Clear and MixBuffers\<close>

definition Clear :: "'st Mixer \<Rightarrow> 'st Mixer" where
  "Clear m = m\<lparr> mTemp := map (\<lambda>buffer. replicate (length buffer) 0) (mTemp m) \<rparr>"

text \<open>The inner loop of \<^verbatim>\<open>MixBuffers\<close>: \<open>len\<close> samples of \<open>src\<close>, times the gain, are
  added to the first \<open>len\<close> samples of \<open>dest\<close>.\<close>

definition mixInto :: "real list \<Rightarrow> real list \<Rightarrow> real \<Rightarrow> nat \<Rightarrow> error + real list" where
  "mixInto dest src gain len =
     (if len \<le> length dest \<and> len \<le> length src
      then Inr (map (\<lambda>j. dest ! j + src ! j * gain) [0..<len] @ drop len dest)
      else Inl OutOfBounds)"

text \<open>The outer loop of \<^verbatim>\<open>MixBuffers\<close>, over the output channels still to visit.\<close>

fun MixBuffers_channels ::
  "nat list \<Rightarrow> bool list \<Rightarrow> real list \<Rightarrow> real list \<Rightarrow> real list list \<Rightarrow> nat \<Rightarrow>
   error + real list list" where
  "MixBuffers_channels [] channelFlags gains src dests len = Inr dests"
| "MixBuffers_channels (c # cs) channelFlags gains src dests len =
     (case nth_checked channelFlags c of
        Inl e \<Rightarrow> Inl e
      | Inr flag \<Rightarrow>
          (if \<not> flag then MixBuffers_channels cs channelFlags gains src dests len
           else
             (case nth_checked dests c of
                Inl e \<Rightarrow> Inl e
              | Inr dest \<Rightarrow>
                  (case nth_checked gains c of
                     Inl e \<Rightarrow> Inl e
                   | Inr gain \<Rightarrow>
                       (case mixInto dest src gain len of
                          Inl e \<Rightarrow> Inl e
                        | Inr dest' \<Rightarrow>
                            MixBuffers_channels cs channelFlags gains src
                              (dests[c := dest']) len)))))"

definition MixBuffers ::
  "nat \<Rightarrow> bool list \<Rightarrow> real list \<Rightarrow> real list \<Rightarrow> real list list \<Rightarrow> nat \<Rightarrow>
   error + real list list" where
  "MixBuffers numChannels channelFlags gains src dests len =
     MixBuffers_channels [0..<numChannels] channelFlags gains src dests len"

subsection \<open>Process\<close>

text \<open>Writing 1 into an entry of the flags, which are an array of \<open>numChannels\<close>
  bytes on the stack.\<close>

definition setFlag :: "bool list \<Rightarrow> nat \<Rightarrow> error + bool list" where
  "setFlag channelFlags c =
     (if c < length channelFlags then Inr (channelFlags[c := True]) else Inl OutOfBounds)"

text \<open>The lambda \<^verbatim>\<open>findChannelFlags\<close>: the flags are cleared; a map, when there is
  one, is copied over them, and otherwise the channel type decides.\<close>

definition findChannelFlags :: "nat \<Rightarrow> bool list option \<Rightarrow> ChannelType \<Rightarrow> error + bool list" where
  "findChannelFlags numChannels map' channel =
     (case map' of
        Some row \<Rightarrow>
          (if numChannels \<le> length row then Inr (take numChannels row) else Inl OutOfBounds)
      | None \<Rightarrow>
          (case channel of
             MonoChannel \<Rightarrow> Inr (replicate numChannels True)
           | UnknownChannel k \<Rightarrow> Inr (replicate numChannels True)
           | LeftChannel \<Rightarrow> setFlag (replicate numChannels False) 0
           | RightChannel \<Rightarrow>
               (if numChannels \<ge> 2 then setFlag (replicate numChannels False) 1
                else setFlag (replicate numChannels False) 0)))"

text \<open>\<^verbatim>\<open>std::clamp(v, lo, hi)\<close>, as the library computes it. The standard defines
  it for \<open>lo \<le> hi\<close> only; the properties of the current time below are stated for
  calls in which that holds.\<close>

definition std_clamp :: "real \<Rightarrow> real \<Rightarrow> real \<Rightarrow> real" where
  "std_clamp v lo hi = (if v < lo then lo else if hi < v then hi else v)"

text \<open>The body of the loop over the channels \<open>j\<close> of one source, after a successful
  \<^verbatim>\<open>Acquire\<close> that produced \<open>len\<close> frames: the accumulation of channel \<open>j\<close> of the
  float buffers into \<^verbatim>\<open>mTemp\<close>.\<close>

definition mixChannel :: "'st Mixer \<Rightarrow> 'st MixerSource \<Rightarrow> nat \<Rightarrow> nat \<Rightarrow> error + 'st Mixer" where
  "mixChannel m source len j =
     (case nth_checked (mFloatBuffers m) j of
        Inl e \<Rightarrow> Inl e
      | Inr pFloat \<Rightarrow>
          (case MixerSource_GetChannel source j of
             Inl e \<Rightarrow> Inl e
           | Inr track \<Rightarrow>
               (let gains = (if mApplyTrackGains m
                             then map (GetChannelGain track) [0..<mNumChannels m]
                             else replicate (mNumChannels m) 1)
                in case MixerSource_MixerSpec source j of
                     Inl e \<Rightarrow> Inl e
                   | Inr map' \<Rightarrow>
                       (case findChannelFlags (mNumChannels m) map' (GetChannel track) of
                          Inl e \<Rightarrow> Inl e
                        | Inr flags \<Rightarrow>
                            (case MixBuffers (mNumChannels m) flags gains pFloat (mTemp m) len of
                               Inl e \<Rightarrow> Inl e
                             | Inr dests \<Rightarrow> Inr (m\<lparr> mTemp := dests \<rparr>))))))"

fun mixChannels :: "'st Mixer \<Rightarrow> 'st MixerSource \<Rightarrow> nat \<Rightarrow> nat list \<Rightarrow> error + 'st Mixer" where
  "mixChannels m source len [] = Inr m"
| "mixChannels m source len (j # js) =
     (case mixChannel m source len j of
        Inl e \<Rightarrow> Inl e
      | Inr m' \<Rightarrow> mixChannels m' source len js)"

text \<open>The channels of a source that the loop visits: \<open>j < limit\<close>, where \<open>limit\<close> is
  the smaller of the channels of the source and the channels of the float buffers.\<close>

definition mixedChannels :: "'st Mixer \<Rightarrow> 'st MixerSource \<Rightarrow> nat list" where
  "mixedChannels m source =
     [0..<min (MixerSource_Channels source) (length (mFloatBuffers m))]"

definition mixSource :: "'st Mixer \<Rightarrow> 'st MixerSource \<Rightarrow> nat \<Rightarrow> error + 'st Mixer" where
  "mixSource m source len = mixChannels m source len (mixedChannels m source)"

text \<open>How the loop over the sources ends: by \<^verbatim>\<open>return 0\<close> inside it, or by running
  through, with the largest count acquired.\<close>

datatype 'st loop_end = Returned0 "'st Mixer" | RanThrough nat "'st Mixer"

text \<open>The loop over the sources. \<open>done\<close> are the sources already visited, in their
  new states; \<open>maxOut\<close> is the running maximum.\<close>

fun Process_sources ::
  "'st Acquire \<Rightarrow> nat \<Rightarrow> 'st MixerSource list \<Rightarrow> 'st MixerSource list \<Rightarrow> nat \<Rightarrow> 'st Mixer \<Rightarrow>
   error + 'st loop_end" where
  "Process_sources acquire maxToProcess done [] maxOut m =
     Inr (RanThrough maxOut (m\<lparr> mSources := done \<rparr>))"
| "Process_sources acquire maxToProcess done (source # rest) maxOut m =
     (case acquire source (mFloatBuffers m) maxToProcess (mTimesAndSpeed m) of
        (oResult, state', buffers', time') \<Rightarrow>
          (let source' = source\<lparr> mState := state' \<rparr>;
               m' = m\<lparr> mFloatBuffers := buffers',
                       mTimesAndSpeed := (mTimesAndSpeed m)\<lparr> mTime := time' \<rparr> \<rparr>
           in case oResult of
                None \<Rightarrow> Inr (Returned0 (m'\<lparr> mSources := done @ source' # rest \<rparr>))
              | Some result \<Rightarrow>
                  (case mixSource m' source' result of
                     Inl e \<Rightarrow> Inl e
                   | Inr m'' \<Rightarrow>
                       Process_sources acquire maxToProcess (done @ [source']) rest
                         (max maxOut result) m'')))"

text \<open>\<^verbatim>\<open>Mixer::Process\<close>. The result is the count returned and the mixer after the
  call. The last step of the source, \<^verbatim>\<open>CopySamples\<close> from \<^verbatim>\<open>mTemp\<close> into \<^verbatim>\<open>mBuffer\<close>,
  changes only the converted samples, which are not represented.\<close>

definition Process :: "'st Acquire \<Rightarrow> 'st Mixer \<Rightarrow> nat \<Rightarrow> error + nat \<times> 'st Mixer" where
  "Process acquire m maxToProcess =
     (if \<not> maxToProcess \<le> mBufferSize m then Inl AssertionFailed
      else
        (let oldTime = mTime (mTimesAndSpeed m);
             backwards = (mT0 (mTimesAndSpeed m) > mT1 (mTimesAndSpeed m))
         in case Process_sources acquire maxToProcess [] (mSources m) 0 (Clear m) of
              Inl e \<Rightarrow> Inl e
            | Inr (Returned0 m') \<Rightarrow> Inr (0, m')
            | Inr (RanThrough maxOut m') \<Rightarrow>
                (let times = mTimesAndSpeed m';
                     time' = (if backwards then std_clamp (mTime times) (mT1 times) oldTime
                              else std_clamp (mTime times) oldTime (mT1 times));
                     m'' = m'\<lparr> mTimesAndSpeed := times\<lparr> mTime := time' \<rparr> \<rparr>
                 in if maxOut \<le> maxToProcess then Inr (maxOut, m'')
                    else Inl AssertionFailed)))"

subsection \<open>GetBuffer, MixGetCurrentTime\<close>

text \<open>\<^verbatim>\<open>GetBuffer(int channel)\<close> indexes the vector \<^verbatim>\<open>mBuffer\<close>; the index is converted
  to \<^verbatim>\<open>size_t\<close>, so a negative one is outside the vector as well.\<close>

definition GetBuffer :: "'st Mixer \<Rightarrow> int \<Rightarrow> error + SampleBuffer" where
  "GetBuffer m channel =
     (if 0 \<le> channel then nth_checked (mBuffer m) (nat channel) else Inl OutOfBounds)"

definition MixGetCurrentTime :: "'st Mixer \<Rightarrow> real" where
  "MixGetCurrentTime m = mTime (mTimesAndSpeed m)"

subsection \<open>Reposition, SetTimesAndSpeed, SetSpeedForKeyboardScrubbing\<close>

definition Reposition :: "'st SourceReposition \<Rightarrow> 'st Mixer \<Rightarrow> real \<Rightarrow> bool \<Rightarrow> 'st Mixer" where
  "Reposition reposition m t bSkipping =
     (let times = mTimesAndSpeed m;
          backwards = (mT1 times < mT0 times);
          time' = (if backwards then std_clamp t (mT1 times) (mT0 times)
                   else std_clamp t (mT0 times) (mT1 times))
      in m\<lparr> mTimesAndSpeed := times\<lparr> mTime := time' \<rparr>,
            mSources :=
              map (\<lambda>source. source\<lparr> mState := reposition source time' bSkipping \<rparr>)
                (mSources m) \<rparr>)"

definition SetTimesAndSpeed ::
  "'st SourceReposition \<Rightarrow> 'st Mixer \<Rightarrow> real \<Rightarrow> real \<Rightarrow> real \<Rightarrow> bool \<Rightarrow> 'st Mixer" where
  "SetTimesAndSpeed reposition m t0 t1 speed bSkipping =
     Reposition reposition
       (m\<lparr> mTimesAndSpeed := (mTimesAndSpeed m)\<lparr> mT0 := t0, mT1 := t1, mSpeed := \<bar>speed\<bar> \<rparr> \<rparr>)
       t0 bSkipping"

text \<open>\<^verbatim>\<open>std::numeric_limits<double>::max()\<close>, the largest finite double.\<close>

definition numeric_limits_double_max :: real where
  "numeric_limits_double_max = (2 ^ 53 - 1) * 2 ^ 971"

definition SetSpeedForKeyboardScrubbing ::
  "'st SourceReposition \<Rightarrow> 'st Mixer \<Rightarrow> real \<Rightarrow> real \<Rightarrow> 'st Mixer" where
  "SetSpeedForKeyboardScrubbing reposition m speed startTime =
     (let times = mTimesAndSpeed m;
          m' = (if (speed > 0 \<and> mT1 times < mT0 times) \<or> (speed < 0 \<and> mT1 times > mT0 times)
                then Reposition reposition
                       (m\<lparr> mTimesAndSpeed :=
                            (if speed > 0 \<and> mT1 times < mT0 times
                             then times\<lparr> mT0 := 0, mT1 := numeric_limits_double_max \<rparr>
                             else times\<lparr> mT0 := numeric_limits_double_max, mT1 := 0 \<rparr>) \<rparr>)
                       startTime True
                else m)
      in m'\<lparr> mTimesAndSpeed := (mTimesAndSpeed m')\<lparr> mSpeed := \<bar>speed\<bar> \<rparr> \<rparr>)"

subsection \<open>Well-formed arguments\<close>

text \<open>The input tracks, from some position on, are leaders that are not null, each
  followed by the rest of its channel group: \<open>k\<close> is the number of followers still
  to skip. For such tracks the loop of the constructor ends without an assertion.\<close>

fun groupedFrom :: "(SampleTrack \<Rightarrow> SampleTrack list) \<Rightarrow> SampleTrack option list \<Rightarrow> nat \<Rightarrow> bool" where
  "groupedFrom channelsOf [] k = (k = 0)"
| "groupedFrom channelsOf (t # ts) 0 =
     (case t of
        None \<Rightarrow> False
      | Some leader \<Rightarrow>
          channelsOf leader \<noteq> [] \<and> groupedFrom channelsOf ts (length (channelsOf leader) - 1))"
| "groupedFrom channelsOf (t # ts) (Suc k) = groupedFrom channelsOf ts k"

text \<open>A source fits the mixer when, if it has a map, the map has a row of at least
  \<open>numChannels\<close> entries for each of its channels that \<^verbatim>\<open>Process\<close> visits.\<close>

definition sourceFits :: "nat \<Rightarrow> nat \<Rightarrow> 'st MixerSource \<Rightarrow> bool" where
  "sourceFits numChannels maxChannels source =
     (case mpMap source of
        None \<Rightarrow> True
      | Some rows \<Rightarrow>
          (\<forall>j < min (length (mChannels source)) maxChannels.
              j < length rows \<and> numChannels \<le> length (rows ! j)))"

text \<open>The shape that the constructor gives a mixer with at least one output channel,
  and that \<^verbatim>\<open>Process\<close> relies on: \<^verbatim>\<open>mTemp\<close> has \<^verbatim>\<open>mNumChannels\<close> rows of
  \<^verbatim>\<open>mBufferSize\<close> samples, every float buffer holds \<^verbatim>\<open>mBufferSize\<close> samples or more,
  and every source fits.\<close>

definition Mixer_shaped :: "'st Mixer \<Rightarrow> bool" where
  "Mixer_shaped m =
     (0 < mNumChannels m
      \<and> length (mTemp m) = mNumChannels m
      \<and> (\<forall>n \<in> set (map length (mTemp m)). n = mBufferSize m)
      \<and> (\<forall>n \<in> set (map length (mFloatBuffers m)). mBufferSize m \<le> n)
      \<and> (\<forall>source \<in> set (mSources m).
            sourceFits (mNumChannels m) (length (mFloatBuffers m)) source))"

text \<open>Two mixers agree in the counts and sizes that make up the shape.\<close>

definition sameShape :: "'st Mixer \<Rightarrow> 'st Mixer \<Rightarrow> bool" where
  "sameShape m' m =
     (mNumChannels m' = mNumChannels m \<and> mBufferSize m' = mBufferSize m
      \<and> map length (mTemp m') = map length (mTemp m)
      \<and> map length (mFloatBuffers m') = map length (mFloatBuffers m))"

text \<open>
  Modelled from the spec: \<^verbatim>\<open>MixerSource::Acquire\<close> is defined outside the sources at
  hand. The spec (4.2) gives its contract: it produces \<open>frameCount \<le> maxFrames\<close>
  frames; \<^verbatim>\<open>Process\<close> asserts the same of the largest count. It writes into the float
  buffers it is given, which therefore keep their number and sizes.
\<close>

definition AcquireBounded :: "'st Acquire \<Rightarrow> bool" where
  "AcquireBounded acquire =
     (\<forall>source buffers bound tas.
        case acquire source buffers bound tas of
          (oResult, state', buffers', time') \<Rightarrow>
            map length buffers' = map length buffers
            \<and> (\<forall>result. oResult = Some result \<longrightarrow> result \<le> bound))"

text \<open>The call of \<^verbatim>\<open>Process\<close> runs through the loop over the sources: no
  \<^verbatim>\<open>Acquire\<close> returns none (and no access is out of bounds).\<close>

definition ranThrough :: "'st Acquire \<Rightarrow> 'st Mixer \<Rightarrow> nat \<Rightarrow> bool" where
  "ranThrough acquire m maxToProcess =
     (case Process_sources acquire maxToProcess [] (mSources m) 0 (Clear m) of
        Inr (RanThrough maxOut m') \<Rightarrow> True
      | _ \<Rightarrow> False)"

text \<open>The counts that the calls of \<^verbatim>\<open>Acquire\<close> return in the loop over the
  sources, in the order of the sources, up to the end of the loop.\<close>

fun acquiredCounts :: "'st Acquire \<Rightarrow> nat \<Rightarrow> 'st MixerSource list \<Rightarrow> 'st Mixer \<Rightarrow> nat list" where
  "acquiredCounts acquire maxToProcess [] m = []"
| "acquiredCounts acquire maxToProcess (source # rest) m =
     (case acquire source (mFloatBuffers m) maxToProcess (mTimesAndSpeed m) of
        (oResult, state', buffers', time') \<Rightarrow>
          (case oResult of
             None \<Rightarrow> []
           | Some result \<Rightarrow>
               (case mixSource
                       (m\<lparr> mFloatBuffers := buffers',
                            mTimesAndSpeed := (mTimesAndSpeed m)\<lparr> mTime := time' \<rparr> \<rparr>)
                       (source\<lparr> mState := state' \<rparr>) result of
                  Inl e \<Rightarrow> [result]
                | Inr m'' \<Rightarrow> result # acquiredCounts acquire maxToProcess rest m'')))"

text \<open>What channel \<open>j\<close> of a source adds to sample \<open>i\<close> of output channel \<open>c\<close>
  when it is mixed: sample \<open>i\<close> of float buffer \<open>j\<close> times the gain of the channel for
  \<open>c\<close> (1 when track gains are not applied), when the flags that \<^verbatim>\<open>findChannelFlags\<close>
  gives the channel select \<open>c\<close>, and nothing otherwise.\<close>

definition contribution ::
  "nat \<Rightarrow> bool \<Rightarrow> real list list \<Rightarrow> 'st MixerSource \<Rightarrow> nat \<Rightarrow> nat \<Rightarrow> nat \<Rightarrow> real" where
  "contribution numChannels applyTrackGains buffers source j c i =
     (case MixerSource_MixerSpec source j of
        Inl e \<Rightarrow> 0
      | Inr map' \<Rightarrow>
          (case findChannelFlags numChannels map' (GetChannel (mChannels source ! j)) of
             Inl e \<Rightarrow> 0
           | Inr flags \<Rightarrow>
               (if flags ! c
                then buffers ! j ! i *
                       (if applyTrackGains then GetChannelGain (mChannels source ! j) c else 1)
                else 0)))"

text \<open>The frames that the calls of \<^verbatim>\<open>Acquire\<close> produce in the loop over the
  sources: for each source acquired from, in the order of the sources, the float
  buffers as its \<^verbatim>\<open>Acquire\<close> left them, the source, and the count returned.\<close>

fun acquiredFrames ::
  "'st Acquire \<Rightarrow> nat \<Rightarrow> 'st MixerSource list \<Rightarrow> 'st Mixer \<Rightarrow>
   (real list list \<times> 'st MixerSource \<times> nat) list" where
  "acquiredFrames acquire maxToProcess [] m = []"
| "acquiredFrames acquire maxToProcess (source # rest) m =
     (case acquire source (mFloatBuffers m) maxToProcess (mTimesAndSpeed m) of
        (oResult, state', buffers', time') \<Rightarrow>
          (case oResult of
             None \<Rightarrow> []
           | Some result \<Rightarrow>
               (case mixSource
                       (m\<lparr> mFloatBuffers := buffers',
                            mTimesAndSpeed := (mTimesAndSpeed m)\<lparr> mTime := time' \<rparr> \<rparr>)
                       (source\<lparr> mState := state' \<rparr>) result of
                  Inl e \<Rightarrow> [(buffers', source\<lparr> mState := state' \<rparr>, result)]
                | Inr m'' \<Rightarrow>
                    (buffers', source\<lparr> mState := state' \<rparr>, result)
                      # acquiredFrames acquire maxToProcess rest m'')))"

subsection \<open>Example arguments\<close>

text \<open>Tracks, sources and mixers for the concrete runs below. The state of an example
  source is the number of times it was asked to acquire, and whether it is exhausted;
  the source of a track of unknown channel type starts exhausted.\<close>

definition ex_left :: SampleTrack where
  "ex_left = \<lparr> GetChannel = LeftChannel, GetChannelGain = (\<lambda>c. 1) \<rparr>"

definition ex_right :: SampleTrack where
  "ex_right = \<lparr> GetChannel = RightChannel, GetChannelGain = (\<lambda>c. 1) \<rparr>"

definition ex_mono :: SampleTrack where
  "ex_mono = \<lparr> GetChannel = MonoChannel, GetChannelGain = (\<lambda>c. 1) \<rparr>"

definition ex_empty :: SampleTrack where
  "ex_empty = \<lparr> GetChannel = UnknownChannel 3, GetChannelGain = (\<lambda>c. 1) \<rparr>"

definition ex_channelsOf :: "SampleTrack \<Rightarrow> SampleTrack list" where
  "ex_channelsOf leader =
     (if GetChannel leader = LeftChannel then [ex_left, ex_right] else [leader])"

definition ex_newState :: "SampleTrack \<Rightarrow> nat \<times> bool" where
  "ex_newState leader = (0, GetChannel leader = UnknownChannel 3)"

definition ex_reposition :: "(nat \<times> bool) SourceReposition" where
  "ex_reposition source t bSkipping = (0, False)"

definition ex_source :: "SampleTrack list \<Rightarrow> bool list list option \<Rightarrow> nat \<times> bool \<Rightarrow> (nat \<times> bool) MixerSource" where
  "ex_source channels rows state = \<lparr> mChannels = channels, mpMap = rows, mState = state \<rparr>"

definition ex_mixer :: "nat \<Rightarrow> bool \<Rightarrow> (nat \<times> bool) MixerSource list \<Rightarrow> (nat \<times> bool) Mixer" where
  "ex_mixer numOutChannels interleaved sources =
     \<lparr> mNumChannels = numOutChannels, mBufferSize = 1, mApplyTrackGains = False,
       mHighQuality = False, mFormat = floatSample, mInterleaved = interleaved,
       mTimesAndSpeed = \<lparr> mT0 = 98, mT1 = 100, mSpeed = 1, mTime = 98 \<rparr>,
       mFloatBuffers = [[0, 0], [0, 0]],
       mTemp = replicate numOutChannels [0],
       mBuffer = (if interleaved then [\<lparr> mCount = numOutChannels, mSampleFormat = floatSample \<rparr>]
                  else replicate numOutChannels \<lparr> mCount = 1, mSampleFormat = floatSample \<rparr>),
       mSources = sources \<rparr>"

definition ex_spec :: MixerSpec where
  "ex_spec = \<lparr> GetNumChannels = 2, GetNumTracks = 2, mMap = [[True, False], [False, True]] \<rparr>"

text \<open>An example of \<^verbatim>\<open>Acquire\<close>: an exhausted source returns none; any other
  produces one frame (when asked for one or more), fills channel \<open>j\<close> of the float
  buffers with the sample \<open>j + 1\<close>, and moves the shared time on by 5 seconds. Each
  call is counted in the state of the source.\<close>

definition ex_acquire :: "(nat \<times> bool) Acquire" where
  "ex_acquire source buffers bound tas =
     (if snd (mState source)
      then (None, (Suc (fst (mState source)), True), buffers, mTime tas)
      else (Some (min bound 1), (Suc (fst (mState source)), False),
            map (\<lambda>j. replicate (length (buffers ! j)) (real (Suc j))) [0..<length buffers],
            mTime tas + 5))"

section \<open>Properties\<close>

subsection \<open>The constructor\<close>

lemma Mixer_sources_None_map_aux:
  assumes "Mixer_sources channelsOf newState inputTracks pMixerSpec i sources = Some r"
  shows "pMixerSpec = None \<longrightarrow> (\<forall>s \<in> set sources. mpMap s = None) \<longrightarrow>
           (\<forall>out. r = Inr out \<longrightarrow> (\<forall>s \<in> set out. mpMap s = None))"
proof (rule Mixer_sources.raw_induct
    [where P = "\<lambda>channelsOf newState inputTracks pMixerSpec i sources r.
       pMixerSpec = None \<longrightarrow> (\<forall>s \<in> set sources. mpMap s = None) \<longrightarrow>
           (\<forall>out. r = Inr out \<longrightarrow> (\<forall>s \<in> set out. mpMap s = None))", OF _ assms],
    goal_cases)
  case (1 rec channelsOf newState inputTracks pMixerSpec i sources r)
  note hyps = "1"(2) and IH = "1"(1)
  show ?case
  proof (intro impI allI)
    fix out
    assume pm: "pMixerSpec = None" and srcs: "\<forall>s \<in> set sources. mpMap s = None"
      and r: "r = Inr out"
    show "\<forall>s \<in> set out. mpMap s = None"
    proof (cases "i < length inputTracks")
      case False
      with hyps r srcs show ?thesis by simp
    next
      case True
      show ?thesis
      proof (cases "inputTracks ! i")
        case None
        with True hyps r show ?thesis by simp
      next
        case (Some leader)
        show ?thesis
        proof (cases "length inputTracks < i + length (channelsOf leader)")
          case True
          with \<open>i < length inputTracks\<close> Some hyps r show ?thesis by simp
        next
          case False
          with \<open>i < length inputTracks\<close> Some hyps pm
          have "rec channelsOf newState inputTracks pMixerSpec (i + length (channelsOf leader))
                  (sources @ [\<lparr> mChannels = channelsOf leader, mpMap = None,
                                 mState = newState leader \<rparr>]) = Some r"
            by simp
          from IH [OF this] pm srcs r show ?thesis by simp
        qed
      qed
    qed
  qed
qed

lemma groupedFrom_skip:
  "groupedFrom channelsOf ts k \<Longrightarrow> k \<le> length ts \<and> groupedFrom channelsOf (drop k ts) 0"
proof (induction ts arbitrary: k)
  case Nil
  then show ?case by simp
next
  case (Cons t ts)
  then show ?case by (cases k) auto
qed

lemma Mixer_sources_total:
  "groupedFrom channelsOf ts 0 \<Longrightarrow>
     \<exists>out. Mixer_sources channelsOf newState (pre @ ts) pMixerSpec (length pre) sources =
             Some (Inr out)"
proof (induction "length ts" arbitrary: ts pre sources rule: less_induct)
  case less
  show ?case
  proof (cases ts)
    case Nil
    then show ?thesis by (subst Mixer_sources.simps) simp
  next
    case (Cons t ts')
    with less.prems obtain leader where t: "t = Some leader"
      and ne: "channelsOf leader \<noteq> []"
      and g: "groupedFrom channelsOf ts' (length (channelsOf leader) - 1)"
      by (auto split: option.splits)
    let ?n = "length (channelsOf leader)"
    from groupedFrom_skip [OF g]
    have le: "?n - 1 \<le> length ts'" and g0: "groupedFrom channelsOf (drop (?n - 1) ts') 0"
      by simp_all
    from ne have n: "0 < ?n" by simp
    have dr: "drop ?n ts = drop (?n - 1) ts'"
      using n Cons by (cases ?n) simp_all
    have len: "length (drop ?n ts) < length ts"
      using n Cons by simp
    have fit: "\<not> length (pre @ ts) < length pre + ?n"
      using le Cons n by simp
    have split: "pre @ ts = (pre @ take ?n ts) @ drop ?n ts"
      by simp
    have idx: "length (pre @ take ?n ts) = length pre + ?n"
      using le Cons n by simp
    have g0': "groupedFrom channelsOf (drop ?n ts) 0"
      using g0 dr by simp
    from less.hyps [OF len g0', of "pre @ take ?n ts"] idx
    obtain out where
      "Mixer_sources channelsOf newState (pre @ ts) pMixerSpec
         (length pre + ?n)
         (sources @ [\<lparr> mChannels = channelsOf leader,
                        mpMap = (case pMixerSpec of None \<Rightarrow> None
                                 | Some spec \<Rightarrow> Some (drop (length pre) (mMap spec))),
                        mState = newState leader \<rparr>]) = Some (Inr out)"
      by (auto simp: idx)
    then have "Mixer_sources channelsOf newState (pre @ ts) pMixerSpec (length pre) sources =
                 Some (Inr out)"
      using fit Cons t by (subst Mixer_sources.simps) (simp add: nth_append)
    then show ?thesis by blast
  qed
qed

lemma pMixerSpec_of_mismatch:
  "GetNumChannels spec \<noteq> numChannels \<or> GetNumTracks spec \<noteq> nTracks \<Longrightarrow>
     pMixerSpec_of (Some spec) numChannels nTracks = None"
  by (auto simp: pMixerSpec_of_def)

lemma ex_sources_built:
  "Mixer_sources ex_channelsOf ex_newState [Some ex_left, Some ex_right, Some ex_empty, Some ex_mono]
     None 0 [] =
   Some (Inr [ex_source [ex_left, ex_right] None (0, False),
              ex_source [ex_empty] None (0, True),
              ex_source [ex_mono] None (0, False)])"
  by (simp add: Mixer_sources.simps ex_channelsOf_def ex_newState_def ex_source_def
      ex_left_def ex_right_def ex_mono_def ex_empty_def)

lemma ex_mixer_built:
  "Mixer_Mixer ex_channelsOf ex_newState [Some ex_left, Some ex_right, Some ex_empty, Some ex_mono]
     1 98 100 numOutChannels 1 interleaved floatSample False None False =
   Some (Inr (ex_mixer numOutChannels interleaved
     [ex_source [ex_left, ex_right] None (0, False),
      ex_source [ex_empty] None (0, True),
      ex_source [ex_mono] None (0, False)]))"
  by (simp add: Mixer_Mixer_def pMixerSpec_of_def ex_sources_built ex_mixer_def initVector_def
      numeral_2_eq_2)

text \<open>
  Claim C6. A mixer specification whose count of channels differs from the output
  channels, or whose count of tracks differs from the number of input tracks, is treated
  as absent: the constructor gives what it gives without a specification, every source
  of a mixer so built has no map (\<^verbatim>\<open>MixerSpec(j)\<close> is null for every channel, so
  \<^verbatim>\<open>findChannelFlags\<close> routes by channel type), and for input tracks that are leaders
  with their groups the constructor returns a mixer.
\<close>

theorem Mixer_mismatched_spec_absent:
  assumes "GetNumChannels spec \<noteq> numOutChannels \<or> GetNumTracks spec \<noteq> length inputTracks"
  shows "Mixer_Mixer channelsOf newState inputTracks initialSpeed startTime stopTime
           numOutChannels outBufferSize outInterleaved outFormat highQuality (Some spec)
           applyTrackGains =
         Mixer_Mixer channelsOf newState inputTracks initialSpeed startTime stopTime
           numOutChannels outBufferSize outInterleaved outFormat highQuality None
           applyTrackGains
       \<and> (\<forall>m. Mixer_Mixer channelsOf newState inputTracks initialSpeed startTime stopTime
                numOutChannels outBufferSize outInterleaved outFormat highQuality (Some spec)
                applyTrackGains = Some (Inr m) \<longrightarrow>
              (\<forall>source \<in> set (mSources m). \<forall>j. MixerSource_MixerSpec source j = Inr None))
       \<and> (groupedFrom channelsOf inputTracks 0 \<longrightarrow>
            (\<exists>m. Mixer_Mixer channelsOf newState inputTracks initialSpeed startTime stopTime
                numOutChannels outBufferSize outInterleaved outFormat highQuality (Some spec)
                applyTrackGains = Some (Inr m)))"
proof (intro conjI allI impI)
  note pm = pMixerSpec_of_mismatch [OF assms]
  show "Mixer_Mixer channelsOf newState inputTracks initialSpeed startTime stopTime
           numOutChannels outBufferSize outInterleaved outFormat highQuality (Some spec)
           applyTrackGains =
         Mixer_Mixer channelsOf newState inputTracks initialSpeed startTime stopTime
           numOutChannels outBufferSize outInterleaved outFormat highQuality None
           applyTrackGains"
    by (simp add: Mixer_Mixer_def pm) (simp add: pMixerSpec_of_def)
next
  fix m
  note pm = pMixerSpec_of_mismatch [OF assms]
  assume "Mixer_Mixer channelsOf newState inputTracks initialSpeed startTime stopTime
                numOutChannels outBufferSize outInterleaved outFormat highQuality (Some spec)
                applyTrackGains = Some (Inr m)"
  then obtain out where out: "Mixer_sources channelsOf newState inputTracks None 0 [] = Some (Inr out)"
    and m: "mSources m = out"
    by (auto simp: Mixer_Mixer_def pm split: option.splits sum.splits)
  from Mixer_sources_None_map_aux [OF out] m
  have "\<forall>s \<in> set (mSources m). mpMap s = None" by simp
  then show "\<forall>source \<in> set (mSources m). \<forall>j. MixerSource_MixerSpec source j = Inr None"
    by (simp add: MixerSource_MixerSpec_def)
next
  note pm = pMixerSpec_of_mismatch [OF assms]
  assume "groupedFrom channelsOf inputTracks 0"
  from Mixer_sources_total [OF this, of newState "[]" None "[]"]
  show "\<exists>m. Mixer_Mixer channelsOf newState inputTracks initialSpeed startTime stopTime
                numOutChannels outBufferSize outInterleaved outFormat highQuality (Some spec)
                applyTrackGains = Some (Inr m)"
    by (auto simp: Mixer_Mixer_def pm)
qed

theorem Mixer_mismatched_spec_absent_witness:
  "GetNumTracks ex_spec \<noteq> length [Some ex_left, Some ex_right, Some ex_empty, Some ex_mono]
   \<and> groupedFrom ex_channelsOf [Some ex_left, Some ex_right, Some ex_empty, Some ex_mono] 0
   \<and> Mixer_Mixer ex_channelsOf ex_newState
        [Some ex_left, Some ex_right, Some ex_empty, Some ex_mono]
        1 98 100 2 1 False floatSample False (Some ex_spec) False =
      Some (Inr (ex_mixer 2 False
        [ex_source [ex_left, ex_right] None (0, False),
         ex_source [ex_empty] None (0, True),
         ex_source [ex_mono] None (0, False)]))
   \<and> MixerSource_MixerSpec (ex_source [ex_left, ex_right] None (0, False)) 1 = Inr None"
proof -
  have mismatch: "GetNumChannels ex_spec \<noteq> 2 \<or>
      GetNumTracks ex_spec \<noteq> length [Some ex_left, Some ex_right, Some ex_empty, Some ex_mono]"
    by (simp add: ex_spec_def)
  have grouped: "groupedFrom ex_channelsOf [Some ex_left, Some ex_right, Some ex_empty, Some ex_mono] 0"
    by (simp add: ex_channelsOf_def ex_left_def ex_right_def ex_mono_def ex_empty_def)
  from Mixer_mismatched_spec_absent [OF mismatch, of ex_channelsOf ex_newState 1 98 100 1 False
      floatSample False False]
  have eq: "Mixer_Mixer ex_channelsOf ex_newState
        [Some ex_left, Some ex_right, Some ex_empty, Some ex_mono]
        1 98 100 2 1 False floatSample False (Some ex_spec) False =
      Mixer_Mixer ex_channelsOf ex_newState
        [Some ex_left, Some ex_right, Some ex_empty, Some ex_mono]
        1 98 100 2 1 False floatSample False None False"
    by (rule conjunct1)
  have none: "MixerSource_MixerSpec (ex_source [ex_left, ex_right] None (0, False)) 1 = Inr None"
    by (simp add: ex_source_def MixerSource_MixerSpec_def)
  have tracks: "GetNumTracks ex_spec \<noteq>
      length [Some ex_left, Some ex_right, Some ex_empty, Some ex_mono]"
    by (simp add: ex_spec_def)
  show ?thesis
    unfolding eq ex_mixer_built using tracks grouped none by blast
qed

subsection \<open>GetBuffer\<close>

text \<open>
  Claim C10. A mixer constructed with interleaved output has exactly one output buffer,
  of \<open>outBufferSize * numOutChannels\<close> samples, so \<^verbatim>\<open>GetBuffer(channel)\<close> is outside
  the vector for every channel from 1 on, and inside it exactly for channel 0, so with
  two output channels or more not every channel below \<open>numOutChannels\<close> is inside. A mixer
  constructed with output that is not interleaved has one buffer of \<open>outBufferSize\<close>
  samples for each output channel, and \<^verbatim>\<open>GetBuffer(channel)\<close> is inside the vector
  exactly for the channels below \<open>numOutChannels\<close>.
\<close>

theorem GetBuffer_channels:
  assumes "Mixer_Mixer channelsOf newState inputTracks initialSpeed startTime stopTime
             numOutChannels outBufferSize outInterleaved outFormat highQuality mixerSpec
             applyTrackGains = Some (Inr m)"
  shows "(outInterleaved \<longrightarrow>
            mBuffer m = [\<lparr> mCount = outBufferSize * numOutChannels, mSampleFormat = outFormat \<rparr>]
            \<and> (\<forall>channel. 1 \<le> channel \<longrightarrow> GetBuffer m channel = Inl OutOfBounds)
            \<and> (\<forall>channel. (\<exists>buffer. GetBuffer m channel = Inr buffer) \<longleftrightarrow> channel = 0)
            \<and> (2 \<le> numOutChannels \<longrightarrow>
                 \<not> (\<forall>channel. 0 \<le> channel \<and> channel < int numOutChannels \<longrightarrow>
                        (\<exists>buffer. GetBuffer m channel = Inr buffer))))
       \<and> (\<not> outInterleaved \<longrightarrow>
            length (mBuffer m) = numOutChannels
            \<and> (\<forall>channel. 0 \<le> channel \<and> channel < int numOutChannels \<longrightarrow>
                  GetBuffer m channel =
                    Inr \<lparr> mCount = outBufferSize, mSampleFormat = outFormat \<rparr>)
            \<and> (\<forall>channel. (\<exists>buffer. GetBuffer m channel = Inr buffer) \<longleftrightarrow>
                  0 \<le> channel \<and> channel < int numOutChannels))"
proof -
  from assms have buf: "mBuffer m =
      initVector (if outInterleaved then 1 else numOutChannels)
        \<lparr> mCount = outBufferSize * (if outInterleaved then numOutChannels else 1),
          mSampleFormat = outFormat \<rparr>"
    by (auto simp: Mixer_Mixer_def split: option.splits sum.splits)
  have "\<not> (\<forall>channel. 0 \<le> channel \<and> channel < int numOutChannels \<longrightarrow>
              (\<exists>buffer. GetBuffer m channel = Inr buffer))"
    if "outInterleaved" and "2 \<le> numOutChannels"
  proof
    assume "\<forall>channel. 0 \<le> channel \<and> channel < int numOutChannels \<longrightarrow>
              (\<exists>buffer. GetBuffer m channel = Inr buffer)"
    with that(2) have "\<exists>buffer. GetBuffer m 1 = Inr buffer" by simp
    with that(1) show False
      by (simp add: buf initVector_def GetBuffer_def nth_checked_def)
  qed
  moreover have "outInterleaved \<longrightarrow>
            mBuffer m = [\<lparr> mCount = outBufferSize * numOutChannels, mSampleFormat = outFormat \<rparr>]
            \<and> (\<forall>channel. 1 \<le> channel \<longrightarrow> GetBuffer m channel = Inl OutOfBounds)
            \<and> (\<forall>channel. (\<exists>buffer. GetBuffer m channel = Inr buffer) \<longleftrightarrow> channel = 0)"
    by (auto simp: buf initVector_def GetBuffer_def nth_checked_def)
  moreover have "\<not> outInterleaved \<longrightarrow>
            length (mBuffer m) = numOutChannels
            \<and> (\<forall>channel. 0 \<le> channel \<and> channel < int numOutChannels \<longrightarrow>
                  GetBuffer m channel =
                    Inr \<lparr> mCount = outBufferSize, mSampleFormat = outFormat \<rparr>)
            \<and> (\<forall>channel. (\<exists>buffer. GetBuffer m channel = Inr buffer) \<longleftrightarrow>
                  0 \<le> channel \<and> channel < int numOutChannels)"
    by (auto simp: buf initVector_def GetBuffer_def nth_checked_def)
  ultimately show ?thesis by blast
qed

theorem GetBuffer_channels_witness:
  "GetBuffer (ex_mixer 2 True [ex_source [ex_left, ex_right] None (0, False),
      ex_source [ex_empty] None (0, True), ex_source [ex_mono] None (0, False)]) 1 = Inl OutOfBounds
   \<and> GetBuffer (ex_mixer 2 True [ex_source [ex_left, ex_right] None (0, False),
      ex_source [ex_empty] None (0, True), ex_source [ex_mono] None (0, False)]) 0 =
       Inr \<lparr> mCount = 2, mSampleFormat = floatSample \<rparr>
   \<and> GetBuffer (ex_mixer 2 False [ex_source [ex_left, ex_right] None (0, False),
      ex_source [ex_empty] None (0, True), ex_source [ex_mono] None (0, False)]) 1 =
       Inr \<lparr> mCount = 1, mSampleFormat = floatSample \<rparr>
   \<and> GetBuffer (ex_mixer 2 False [ex_source [ex_left, ex_right] None (0, False),
      ex_source [ex_empty] None (0, True), ex_source [ex_mono] None (0, False)]) 2 = Inl OutOfBounds"
  using GetBuffer_channels [OF ex_mixer_built [of 2 True]]
    GetBuffer_channels [OF ex_mixer_built [of 2 False]]
  by (simp add: ex_mixer_def GetBuffer_def nth_checked_def)

subsection \<open>The channel flags\<close>

lemma setFlag_replicate:
  "c < n \<Longrightarrow> setFlag (replicate n False) c = Inr (map (\<lambda>i. i = c) [0..<n])"
  by (auto simp: setFlag_def nth_list_update intro!: nth_equalityI split: if_splits)

text \<open>
  Claim C4. The channel flags are a function of the map and the channel type alone. A
  map row (of at least \<open>numChannels\<close> entries) is copied, whatever the channel type;
  without a map, \<^verbatim>\<open>MonoChannel\<close> and every channel type that is none of the three
  enumerators flag all output channels, \<^verbatim>\<open>LeftChannel\<close> flags output channel 0 only,
  and \<^verbatim>\<open>RightChannel\<close> flags output channel 1 only when there are two output
  channels or more, and output channel 0 when there is one.
\<close>

theorem findChannelFlags_policy:
  "(numChannels \<le> length row \<longrightarrow>
      findChannelFlags numChannels (Some row) channel = Inr (take numChannels row))
   \<and> findChannelFlags numChannels None MonoChannel = Inr (replicate numChannels True)
   \<and> findChannelFlags numChannels None (UnknownChannel k) = Inr (replicate numChannels True)
   \<and> (0 < numChannels \<longrightarrow>
        findChannelFlags numChannels None LeftChannel = Inr (map (\<lambda>c. c = 0) [0..<numChannels]))
   \<and> (2 \<le> numChannels \<longrightarrow>
        findChannelFlags numChannels None RightChannel = Inr (map (\<lambda>c. c = 1) [0..<numChannels]))
   \<and> (numChannels = 1 \<longrightarrow> findChannelFlags numChannels None RightChannel = Inr [True])"
  by (simp add: findChannelFlags_def setFlag_replicate) (simp add: setFlag_def)

theorem findChannelFlags_policy_witness:
  "findChannelFlags 2 (Some [False, True]) LeftChannel = Inr [False, True]
   \<and> findChannelFlags 2 None MonoChannel = Inr [True, True]
   \<and> findChannelFlags 2 None (UnknownChannel 7) = Inr [True, True]
   \<and> findChannelFlags 2 None LeftChannel = Inr [True, False]
   \<and> findChannelFlags 2 None RightChannel = Inr [False, True]
   \<and> findChannelFlags 1 None RightChannel = Inr [True]"
  using findChannelFlags_policy [of 2 "[False, True]" LeftChannel 7]
    findChannelFlags_policy [of 1 "[True]" LeftChannel 7]
  by (simp add: upt_rec numeral_2_eq_2)

subsection \<open>Reposition and keyboard scrubbing\<close>

text \<open>
  Claim C8. After \<^verbatim>\<open>Reposition(t, bSkipping)\<close> the current time is \<open>t\<close> clamped
  into the interval from the smaller to the larger of \<^verbatim>\<open>mT0\<close> and \<^verbatim>\<open>mT1\<close>, every
  source has been repositioned to that clamped time with the same \<^verbatim>\<open>bSkipping\<close>, and
  the bounds are unchanged.
\<close>

theorem Reposition_clamps:
  "mTime (mTimesAndSpeed (Reposition reposition m t bSkipping)) =
     max (min (mT0 (mTimesAndSpeed m)) (mT1 (mTimesAndSpeed m)))
       (min (max (mT0 (mTimesAndSpeed m)) (mT1 (mTimesAndSpeed m))) t)
   \<and> mSources (Reposition reposition m t bSkipping) =
       map (\<lambda>source. source\<lparr> mState :=
              reposition source
                (max (min (mT0 (mTimesAndSpeed m)) (mT1 (mTimesAndSpeed m)))
                   (min (max (mT0 (mTimesAndSpeed m)) (mT1 (mTimesAndSpeed m))) t))
                bSkipping \<rparr>)
         (mSources m)
   \<and> mT0 (mTimesAndSpeed (Reposition reposition m t bSkipping)) = mT0 (mTimesAndSpeed m)
   \<and> mT1 (mTimesAndSpeed (Reposition reposition m t bSkipping)) = mT1 (mTimesAndSpeed m)"
  by (auto simp: Reposition_def Let_def std_clamp_def min_def max_def)

lemma numeric_limits_double_max_pos: "0 < numeric_limits_double_max"
  by (simp add: numeric_limits_double_max_def)

text \<open>
  Claim C7. \<^verbatim>\<open>SetSpeedForKeyboardScrubbing(speed, startTime)\<close>: when the speed is
  positive while \<^verbatim>\<open>mT1 < mT0\<close>, the bounds become 0 and the largest double; when it is
  negative while \<^verbatim>\<open>mT1 > mT0\<close>, they become the largest double and 0; in both cases
  the mixer is repositioned (by \<^verbatim>\<open>Reposition(startTime, true)\<close>, which clamps into the
  new bounds) and so is every source. Otherwise nothing but the speed changes. In all
  cases the speed stored is the absolute value of the speed given. The function returns
  a mixer for every argument: it has no failing branch.
\<close>

theorem SetSpeedForKeyboardScrubbing_flip:
  "(speed > 0 \<and> mT1 (mTimesAndSpeed m) < mT0 (mTimesAndSpeed m) \<longrightarrow>
      mT0 (mTimesAndSpeed (SetSpeedForKeyboardScrubbing reposition m speed startTime)) = 0
      \<and> mT1 (mTimesAndSpeed (SetSpeedForKeyboardScrubbing reposition m speed startTime)) =
          numeric_limits_double_max)
   \<and> (speed < 0 \<and> mT1 (mTimesAndSpeed m) > mT0 (mTimesAndSpeed m) \<longrightarrow>
      mT0 (mTimesAndSpeed (SetSpeedForKeyboardScrubbing reposition m speed startTime)) =
          numeric_limits_double_max
      \<and> mT1 (mTimesAndSpeed (SetSpeedForKeyboardScrubbing reposition m speed startTime)) = 0)
   \<and> ((speed > 0 \<and> mT1 (mTimesAndSpeed m) < mT0 (mTimesAndSpeed m))
        \<or> (speed < 0 \<and> mT1 (mTimesAndSpeed m) > mT0 (mTimesAndSpeed m)) \<longrightarrow>
      mTime (mTimesAndSpeed (SetSpeedForKeyboardScrubbing reposition m speed startTime)) =
          max 0 (min numeric_limits_double_max startTime)
      \<and> mSources (SetSpeedForKeyboardScrubbing reposition m speed startTime) =
          map (\<lambda>source. source\<lparr> mState :=
                 reposition source (max 0 (min numeric_limits_double_max startTime)) True \<rparr>)
            (mSources m))
   \<and> (\<not> (speed > 0 \<and> mT1 (mTimesAndSpeed m) < mT0 (mTimesAndSpeed m))
        \<and> \<not> (speed < 0 \<and> mT1 (mTimesAndSpeed m) > mT0 (mTimesAndSpeed m)) \<longrightarrow>
      SetSpeedForKeyboardScrubbing reposition m speed startTime =
        m\<lparr> mTimesAndSpeed := (mTimesAndSpeed m)\<lparr> mSpeed := \<bar>speed\<bar> \<rparr> \<rparr>)
   \<and> mSpeed (mTimesAndSpeed (SetSpeedForKeyboardScrubbing reposition m speed startTime)) =
        \<bar>speed\<bar>"
  using numeric_limits_double_max_pos
  by (auto simp: SetSpeedForKeyboardScrubbing_def Reposition_def Let_def std_clamp_def
      min_def max_def)

theorem SetSpeedForKeyboardScrubbing_flip_witness:
  "mT0 (mTimesAndSpeed (SetSpeedForKeyboardScrubbing ex_reposition
          ((ex_mixer 2 False [ex_source [ex_mono] None (3, True)])
             \<lparr> mTimesAndSpeed := \<lparr> mT0 = 0, mT1 = 100, mSpeed = 1, mTime = 0 \<rparr> \<rparr>) (- 1) 50)) =
     numeric_limits_double_max
   \<and> mT1 (mTimesAndSpeed (SetSpeedForKeyboardScrubbing ex_reposition
          ((ex_mixer 2 False [ex_source [ex_mono] None (3, True)])
             \<lparr> mTimesAndSpeed := \<lparr> mT0 = 0, mT1 = 100, mSpeed = 1, mTime = 0 \<rparr> \<rparr>) (- 1) 50)) = 0
   \<and> mTime (mTimesAndSpeed (SetSpeedForKeyboardScrubbing ex_reposition
          ((ex_mixer 2 False [ex_source [ex_mono] None (3, True)])
             \<lparr> mTimesAndSpeed := \<lparr> mT0 = 0, mT1 = 100, mSpeed = 1, mTime = 0 \<rparr> \<rparr>) (- 1) 50)) = 50
   \<and> mSpeed (mTimesAndSpeed (SetSpeedForKeyboardScrubbing ex_reposition
          ((ex_mixer 2 False [ex_source [ex_mono] None (3, True)])
             \<lparr> mTimesAndSpeed := \<lparr> mT0 = 0, mT1 = 100, mSpeed = 1, mTime = 0 \<rparr> \<rparr>) (- 1) 50)) = 1
   \<and> mSources (SetSpeedForKeyboardScrubbing ex_reposition
          ((ex_mixer 2 False [ex_source [ex_mono] None (3, True)])
             \<lparr> mTimesAndSpeed := \<lparr> mT0 = 0, mT1 = 100, mSpeed = 1, mTime = 0 \<rparr> \<rparr>) (- 1) 50) =
       [ex_source [ex_mono] None (0, False)]"
proof -
  have "(50::real) \<le> numeric_limits_double_max"
    by (simp add: numeric_limits_double_max_def)
  with SetSpeedForKeyboardScrubbing_flip [of "- 1"
      "(ex_mixer 2 False [ex_source [ex_mono] None (3, True)])
             \<lparr> mTimesAndSpeed := \<lparr> mT0 = 0, mT1 = 100, mSpeed = 1, mTime = 0 \<rparr> \<rparr>"
      ex_reposition 50]
  show ?thesis
    by (simp add: ex_mixer_def ex_source_def ex_reposition_def)
qed

subsection \<open>Mixers that the constructor returns\<close>

lemma Mixer_sources_fit:
  assumes "Mixer_sources channelsOf newState inputTracks pMixerSpec i sources = Some r"
  shows "(\<forall>spec. pMixerSpec = Some spec \<longrightarrow>
             length inputTracks \<le> length (mMap spec)
             \<and> (\<forall>row \<in> set (mMap spec). numChannels \<le> length row)) \<longrightarrow>
         (\<forall>s \<in> set sources. sourceFits numChannels maxChannels s) \<longrightarrow>
         (\<forall>out. r = Inr out \<longrightarrow> (\<forall>s \<in> set out. sourceFits numChannels maxChannels s))"
proof (rule Mixer_sources.raw_induct
    [where P = "\<lambda>channelsOf newState inputTracks pMixerSpec i sources r.
       (\<forall>spec. pMixerSpec = Some spec \<longrightarrow>
             length inputTracks \<le> length (mMap spec)
             \<and> (\<forall>row \<in> set (mMap spec). numChannels \<le> length row)) \<longrightarrow>
         (\<forall>s \<in> set sources. sourceFits numChannels maxChannels s) \<longrightarrow>
         (\<forall>out. r = Inr out \<longrightarrow> (\<forall>s \<in> set out. sourceFits numChannels maxChannels s))",
      OF _ assms],
    goal_cases)
  case (1 rec channelsOf newState inputTracks pMixerSpec i sources r)
  note IH = "1"(1) and hyps = "1"(2)
  show ?case
  proof (intro impI allI)
    fix out
    assume spec: "\<forall>spec. pMixerSpec = Some spec \<longrightarrow>
             length inputTracks \<le> length (mMap spec)
             \<and> (\<forall>row \<in> set (mMap spec). numChannels \<le> length row)"
      and srcs: "\<forall>s \<in> set sources. sourceFits numChannels maxChannels s"
      and r: "r = Inr out"
    show "\<forall>s \<in> set out. sourceFits numChannels maxChannels s"
    proof (cases "i < length inputTracks")
      case False
      with hyps r srcs show ?thesis by simp
    next
      case True
      show ?thesis
      proof (cases "inputTracks ! i")
        case None
        with True hyps r show ?thesis by simp
      next
        case (Some leader)
        show ?thesis
        proof (cases "length inputTracks < i + length (channelsOf leader)")
          case True
          with \<open>i < length inputTracks\<close> Some hyps r show ?thesis by simp
        next
          case False
          let ?source = "\<lparr> mChannels = channelsOf leader,
                           mpMap = (case pMixerSpec of None \<Rightarrow> None
                                    | Some spec \<Rightarrow> Some (drop i (mMap spec))),
                           mState = newState leader \<rparr>"
          from False \<open>i < length inputTracks\<close> Some hyps
          have step: "rec channelsOf newState inputTracks pMixerSpec
                  (i + length (channelsOf leader)) (sources @ [?source]) = Some r"
            by simp
          have "sourceFits numChannels maxChannels ?source"
          proof (cases pMixerSpec)
            case None
            then show ?thesis by (simp add: sourceFits_def)
          next
            case (Some spec)
            with spec have rows: "length inputTracks \<le> length (mMap spec)"
              and row: "\<forall>row \<in> set (mMap spec). numChannels \<le> length row"
              by simp_all
            show ?thesis
              unfolding sourceFits_def using Some False rows row
              by (auto simp: min_def)
          qed
          with srcs have "\<forall>s \<in> set (sources @ [?source]). sourceFits numChannels maxChannels s"
            by simp
          with IH [OF step] spec r show ?thesis by blast
        qed
      qed
    qed
  qed
qed

lemma pMixerSpec_of_Some:
  "pMixerSpec_of mixerSpec numChannels nTracks = Some spec \<Longrightarrow>
     mixerSpec = Some spec \<and> GetNumChannels spec = numChannels \<and> GetNumTracks spec = nTracks"
  by (auto simp: pMixerSpec_of_def split: option.splits if_splits)

lemma Mixer_Mixer_shaped:
  assumes "Mixer_Mixer channelsOf newState inputTracks initialSpeed startTime stopTime
             numOutChannels outBufferSize outInterleaved outFormat highQuality mixerSpec
             applyTrackGains = Some (Inr m)"
    and "0 < numOutChannels"
    and "\<forall>spec. mixerSpec = Some spec \<longrightarrow>
           GetNumTracks spec \<le> length (mMap spec)
           \<and> (\<forall>row \<in> set (mMap spec). GetNumChannels spec \<le> length row)"
  shows "Mixer_shaped m"
proof -
  let ?pm = "pMixerSpec_of mixerSpec numOutChannels (length inputTracks)"
  from assms(1) obtain out where
    out: "Mixer_sources channelsOf newState inputTracks ?pm 0 [] = Some (Inr out)"
    and m: "m = \<lparr> mNumChannels = numOutChannels,
            mBufferSize = outBufferSize,
            mApplyTrackGains = applyTrackGains,
            mHighQuality = highQuality,
            mFormat = outFormat,
            mInterleaved = outInterleaved,
            mTimesAndSpeed =
              \<lparr> mT0 = startTime, mT1 = stopTime, mSpeed = initialSpeed, mTime = startTime \<rparr>,
            mFloatBuffers = replicate 2 (replicate (outBufferSize * 1 + 1) 0),
            mTemp = initVector numOutChannels (replicate outBufferSize 0),
            mBuffer =
              initVector (if outInterleaved then 1 else numOutChannels)
                \<lparr> mCount = outBufferSize * (if outInterleaved then numOutChannels else 1),
                  mSampleFormat = outFormat \<rparr>,
            mSources = out \<rparr>"
    by (auto simp: Mixer_Mixer_def split: option.splits sum.splits)
  have "\<forall>spec. ?pm = Some spec \<longrightarrow>
           length inputTracks \<le> length (mMap spec)
           \<and> (\<forall>row \<in> set (mMap spec). numOutChannels \<le> length row)"
    using assms(3) by (auto dest!: pMixerSpec_of_Some)
  with Mixer_sources_fit [OF out, of numOutChannels 2]
  have "\<forall>s \<in> set out. sourceFits numOutChannels 2 s" by simp
  with assms(2) show ?thesis
    by (simp add: Mixer_shaped_def m initVector_def)
qed

lemma Mixer_Mixer_float_buffers:
  "Mixer_Mixer channelsOf newState inputTracks initialSpeed startTime stopTime
     numOutChannels outBufferSize outInterleaved outFormat highQuality mixerSpec
     applyTrackGains = Some (Inr m) \<Longrightarrow> length (mFloatBuffers m) = 2"
  by (auto simp: Mixer_Mixer_def initVector_def split: option.splits sum.splits)

lemma ex_mixer_stereo_built:
  "Mixer_Mixer ex_channelsOf ex_newState [Some ex_left, Some ex_right]
     1 98 100 1 1 False floatSample False None False =
   Some (Inr (ex_mixer 1 False [ex_source [ex_left, ex_right] None (0, False)]))"
  by (simp add: Mixer_Mixer_def pMixerSpec_of_def Mixer_sources.simps ex_channelsOf_def
      ex_newState_def ex_source_def ex_left_def ex_right_def ex_mixer_def initVector_def
      numeral_2_eq_2)

subsection \<open>Mixing one source\<close>

lemma mixInto_shape:
  "len \<le> length dest \<Longrightarrow> len \<le> length src \<Longrightarrow>
     \<exists>d. mixInto dest src gain len = Inr d \<and> length d = length dest"
  by (simp add: mixInto_def)

lemma MixBuffers_channels_shape:
  assumes "\<forall>c \<in> set cs. c < length flags \<and> c < length gains \<and> c < length dests"
    and "\<forall>n \<in> set (map length dests). len \<le> n"
    and "len \<le> length src"
  shows "\<exists>d. MixBuffers_channels cs flags gains src dests len = Inr d
              \<and> map length d = map length dests"
  using assms
proof (induction cs arbitrary: dests)
  case Nil
  then show ?case by simp
next
  case (Cons c cs)
  from Cons.prems have c: "c < length flags" "c < length gains" "c < length dests"
    by simp_all
  show ?case
  proof (cases "flags ! c")
    case False
    from Cons.IH [of dests] Cons.prems False c show ?thesis
      by (simp add: nth_checked_def)
  next
    case True
    from Cons.prems(2) c have "len \<le> length (dests ! c)" by simp
    from mixInto_shape [OF this Cons.prems(3), of "gains ! c"]
    obtain d' where d': "mixInto (dests ! c) src (gains ! c) len = Inr d'"
      and ld': "length d' = length (dests ! c)" by blast
    have same: "map length (dests[c := d']) = map length dests"
      using ld' c by (simp add: map_update list_update_same_conv)
    have "\<exists>d. MixBuffers_channels cs flags gains src (dests[c := d']) len = Inr d
              \<and> map length d = map length (dests[c := d'])"
    proof (rule Cons.IH)
      show "\<forall>c' \<in> set cs. c' < length flags \<and> c' < length gains \<and> c' < length (dests[c := d'])"
        using Cons.prems(1) by simp
      show "\<forall>n \<in> set (map length (dests[c := d'])). len \<le> n"
        using Cons.prems(2) unfolding same .
      show "len \<le> length src" by (rule Cons.prems(3))
    qed
    with True c d' same show ?thesis
      by (simp add: nth_checked_def)
  qed
qed

lemma findChannelFlags_shape:
  assumes "0 < numChannels" and "\<forall>row. map' = Some row \<longrightarrow> numChannels \<le> length row"
  shows "\<exists>flags. findChannelFlags numChannels map' channel = Inr flags
           \<and> length flags = numChannels"
  using assms
  by (cases map'; cases channel) (auto simp: findChannelFlags_def setFlag_def)

lemma mixChannel_frame:
  "mixChannel m source len j = Inr m' \<Longrightarrow> \<exists>d. m' = m\<lparr> mTemp := d \<rparr>"
  by (auto simp: mixChannel_def Let_def split: sum.splits)

lemma mixChannels_frame:
  "mixChannels m source len js = Inr m' \<Longrightarrow> \<exists>d. m' = m\<lparr> mTemp := d \<rparr>"
proof (induction js arbitrary: m)
  case Nil
  then have "m' = m\<lparr> mTemp := mTemp m \<rparr>" by simp
  then show ?case by blast
next
  case (Cons j js)
  from Cons.prems obtain m1 where m1: "mixChannel m source len j = Inr m1"
    and rest: "mixChannels m1 source len js = Inr m'"
    by (auto split: sum.splits)
  from mixChannel_frame [OF m1] obtain d1 where "m1 = m\<lparr> mTemp := d1 \<rparr>" by blast
  moreover from Cons.IH [OF rest] obtain d where "m' = m1\<lparr> mTemp := d \<rparr>" by blast
  ultimately have "m' = m\<lparr> mTemp := d \<rparr>" by simp
  then show ?case by blast
qed

lemma mixSource_frame:
  "mixSource m source len = Inr m' \<Longrightarrow> \<exists>d. m' = m\<lparr> mTemp := d \<rparr>"
  unfolding mixSource_def by (rule mixChannels_frame)

lemma mixChannel_shape:
  assumes "0 < mNumChannels m" and "length (mTemp m) = mNumChannels m"
    and "\<forall>n \<in> set (map length (mTemp m)). len \<le> n"
    and "j < length (mFloatBuffers m)" and "len \<le> length (mFloatBuffers m ! j)"
    and "j < length (mChannels source)"
    and "\<forall>rows. mpMap source = Some rows \<longrightarrow>
           j < length rows \<and> mNumChannels m \<le> length (rows ! j)"
  shows "\<exists>d. mixChannel m source len j = Inr (m\<lparr> mTemp := d \<rparr>)
           \<and> map length d = map length (mTemp m)"
proof -
  obtain map' where spec: "MixerSource_MixerSpec source j = Inr map'"
    and row: "\<forall>row. map' = Some row \<longrightarrow> mNumChannels m \<le> length row"
    using assms(7) by (cases "mpMap source") (auto simp: MixerSource_MixerSpec_def nth_checked_def)
  let ?track = "mChannels source ! j"
  let ?gains = "if mApplyTrackGains m then map (GetChannelGain ?track) [0..<mNumChannels m]
                else replicate (mNumChannels m) 1"
  from findChannelFlags_shape [OF assms(1) row, of "GetChannel ?track"]
  obtain flags where flags: "findChannelFlags (mNumChannels m) map' (GetChannel ?track) = Inr flags"
    and lf: "length flags = mNumChannels m" by blast
  have "\<exists>d. MixBuffers_channels [0..<mNumChannels m] flags ?gains (mFloatBuffers m ! j)
               (mTemp m) len = Inr d \<and> map length d = map length (mTemp m)"
    by (rule MixBuffers_channels_shape) (use lf assms in auto)
  then obtain d where d: "MixBuffers (mNumChannels m) flags ?gains (mFloatBuffers m ! j)
               (mTemp m) len = Inr d" and ld: "map length d = map length (mTemp m)"
    unfolding MixBuffers_def by blast
  from spec flags d assms(4,6) have "mixChannel m source len j = Inr (m\<lparr> mTemp := d \<rparr>)"
    by (simp add: mixChannel_def MixerSource_GetChannel_def nth_checked_def Let_def)
  with ld show ?thesis by blast
qed

lemma mixChannels_shape:
  assumes "0 < mNumChannels m" and "length (mTemp m) = mNumChannels m"
    and "\<forall>n \<in> set (map length (mTemp m)). len \<le> n"
    and "\<forall>j \<in> set js. j < length (mFloatBuffers m) \<and> len \<le> length (mFloatBuffers m ! j)
           \<and> j < length (mChannels source)
           \<and> (\<forall>rows. mpMap source = Some rows \<longrightarrow>
                 j < length rows \<and> mNumChannels m \<le> length (rows ! j))"
  shows "\<exists>d. mixChannels m source len js = Inr (m\<lparr> mTemp := d \<rparr>)
           \<and> map length d = map length (mTemp m)"
  using assms
proof (induction js arbitrary: m)
  case Nil
  have "mixChannels m source len [] = Inr (m\<lparr> mTemp := mTemp m \<rparr>)" by simp
  then show ?case by blast
next
  case (Cons j js)
  have "\<exists>d. mixChannel m source len j = Inr (m\<lparr> mTemp := d \<rparr>)
           \<and> map length d = map length (mTemp m)"
    by (rule mixChannel_shape) (use Cons.prems in auto)
  then obtain d1 where d1: "mixChannel m source len j = Inr (m\<lparr> mTemp := d1 \<rparr>)"
    and l1: "map length d1 = map length (mTemp m)" by blast
  from l1 have len1: "length d1 = length (mTemp m)" by (rule map_eq_imp_length_eq)
  have "\<exists>d. mixChannels (m\<lparr> mTemp := d1 \<rparr>) source len js = Inr (m\<lparr> mTemp := d1 \<rparr>\<lparr> mTemp := d \<rparr>)
           \<and> map length d = map length (mTemp (m\<lparr> mTemp := d1 \<rparr>))"
    by (rule Cons.IH) (use Cons.prems l1 len1 in auto)
  then obtain d where "mixChannels (m\<lparr> mTemp := d1 \<rparr>) source len js = Inr (m\<lparr> mTemp := d \<rparr>)"
    and "map length d = map length (mTemp m)"
    using l1 by auto
  with d1 show ?case by auto
qed

lemma mixSource_shape:
  assumes "0 < mNumChannels m" and "length (mTemp m) = mNumChannels m"
    and "\<forall>n \<in> set (map length (mTemp m)). len \<le> n"
    and "\<forall>n \<in> set (map length (mFloatBuffers m)). len \<le> n"
    and "sourceFits (mNumChannels m) (length (mFloatBuffers m)) source"
  shows "\<exists>d. mixSource m source len = Inr (m\<lparr> mTemp := d \<rparr>)
           \<and> map length d = map length (mTemp m)"
  unfolding mixSource_def
proof (rule mixChannels_shape [OF assms(1-3)], intro ballI conjI allI impI)
  fix j assume j: "j \<in> set (mixedChannels m source)"
  then show "j < length (mFloatBuffers m)" "j < length (mChannels source)"
    by (simp_all add: mixedChannels_def MixerSource_Channels_def)
  with assms(4) show "len \<le> length (mFloatBuffers m ! j)" by simp
  fix rows assume "mpMap source = Some rows"
  with assms(5) j show "j < length rows" "mNumChannels m \<le> length (rows ! j)"
    by (simp_all add: sourceFits_def mixedChannels_def MixerSource_Channels_def)
qed

lemma mixInto_length:
  "mixInto dest src gain len = Inr d \<Longrightarrow> length d = length dest"
  by (auto simp: mixInto_def split: if_splits)

lemma MixBuffers_channels_lengths:
  "MixBuffers_channels cs flags gains src dests len = Inr d \<Longrightarrow>
     map length d = map length dests"
proof (induction cs arbitrary: dests)
  case Nil
  then show ?case by simp
next
  case (Cons c cs)
  show ?case
  proof (cases "c < length flags \<and> flags ! c")
    case False
    with Cons show ?thesis
      by (auto simp: nth_checked_def split: if_splits)
  next
    case True
    with Cons.prems obtain d' where c: "c < length dests"
      and d': "mixInto (dests ! c) src (gains ! c) len = Inr d'"
      and rest: "MixBuffers_channels cs flags gains src (dests[c := d']) len = Inr d"
      by (auto simp: nth_checked_def split: if_splits sum.splits)
    from mixInto_length [OF d'] c
    have "map length (dests[c := d']) = map length dests"
      by (simp add: map_update list_update_same_conv)
    with Cons.IH [OF rest] show ?thesis by simp
  qed
qed

lemma mixChannel_lengths:
  "mixChannel m source len j = Inr m' \<Longrightarrow>
     \<exists>d. m' = m\<lparr> mTemp := d \<rparr> \<and> map length d = map length (mTemp m)"
  by (auto simp: mixChannel_def MixBuffers_def Let_def split: sum.splits
      dest: MixBuffers_channels_lengths)

lemma mixChannels_lengths:
  "mixChannels m source len js = Inr m' \<Longrightarrow>
     \<exists>d. m' = m\<lparr> mTemp := d \<rparr> \<and> map length d = map length (mTemp m)"
proof (induction js arbitrary: m)
  case Nil
  then have "m' = m\<lparr> mTemp := mTemp m \<rparr>" by simp
  then show ?case by blast
next
  case (Cons j js)
  from Cons.prems obtain m1 where m1: "mixChannel m source len j = Inr m1"
    and rest: "mixChannels m1 source len js = Inr m'"
    by (auto split: sum.splits)
  from mixChannel_lengths [OF m1] obtain d1 where "m1 = m\<lparr> mTemp := d1 \<rparr>"
    and "map length d1 = map length (mTemp m)" by blast
  moreover from Cons.IH [OF rest] obtain d where "m' = m1\<lparr> mTemp := d \<rparr>"
    and "map length d = map length (mTemp m1)" by blast
  ultimately have "m' = m\<lparr> mTemp := d \<rparr> \<and> map length d = map length (mTemp m)" by simp
  then show ?case by blast
qed

lemma mixInto_nth:
  "mixInto dest src gain len = Inr d \<Longrightarrow> i < length dest \<Longrightarrow>
     d ! i = (if i < len then dest ! i + src ! i * gain else dest ! i)"
  by (auto simp: mixInto_def nth_append split: if_splits)

lemma MixBuffers_channels_nth:
  assumes "MixBuffers_channels cs flags gains src dests len = Inr d"
    and "distinct cs" and "c < length dests" and "i < length (dests ! c)"
  shows "d ! c ! i =
           dests ! c ! i + (if c \<in> set cs \<and> flags ! c \<and> i < len then src ! i * gains ! c else 0)"
  using assms
proof (induction cs arbitrary: dests)
  case Nil
  then show ?case by simp
next
  case (Cons c' cs)
  from Cons.prems(1) have c': "c' < length flags"
    by (auto simp: nth_checked_def split: if_splits)
  from Cons.prems(2) have notin: "c' \<notin> set cs" and dist: "distinct cs" by simp_all
  show ?case
  proof (cases "flags ! c'")
    case False
    with Cons.prems(1) c' have "MixBuffers_channels cs flags gains src dests len = Inr d"
      by (simp add: nth_checked_def)
    from Cons.IH [OF this dist Cons.prems(3,4)] False notin show ?thesis
      by auto
  next
    case True
    with Cons.prems(1) c' obtain d' where cd: "c' < length dests" and cg: "c' < length gains"
      and d': "mixInto (dests ! c') src (gains ! c') len = Inr d'"
      and rest: "MixBuffers_channels cs flags gains src (dests[c' := d']) len = Inr d"
      by (auto simp: nth_checked_def split: if_splits sum.splits)
    from mixInto_length [OF d'] have ld': "length d' = length (dests ! c')" .
    have c2: "c < length (dests[c' := d'])" using Cons.prems(3) by simp
    have i2: "i < length (dests[c' := d'] ! c)"
      using Cons.prems(3,4) ld' by (cases "c = c'") simp_all
    note IH = Cons.IH [OF rest dist c2 i2]
    show ?thesis
    proof (cases "c = c'")
      case True
      with IH notin Cons.prems(3,4) mixInto_nth [OF d', of i] \<open>flags ! c'\<close> show ?thesis
        by simp
    next
      case False
      with IH Cons.prems(3) show ?thesis by simp
    qed
  qed
qed

lemma findChannelFlags_length:
  "findChannelFlags numChannels map' channel = Inr flags \<Longrightarrow> length flags = numChannels"
  by (cases map'; cases channel)
     (auto simp: findChannelFlags_def setFlag_def split: if_splits)

lemma mixChannel_nth:
  assumes "mixChannel m source len j = Inr m'"
    and "c < mNumChannels m" and "c < length (mTemp m)" and "i < length (mTemp m ! c)"
  shows "mTemp m' ! c ! i =
           mTemp m ! c ! i +
           (if i < len
            then contribution (mNumChannels m) (mApplyTrackGains m) (mFloatBuffers m) source j c i
            else 0)"
proof -
  let ?gains = "if mApplyTrackGains m
                then map (GetChannelGain (mChannels source ! j)) [0..<mNumChannels m]
                else replicate (mNumChannels m) 1"
  from assms(1) obtain map' flags dests where
    j: "j < length (mFloatBuffers m)" "j < length (mChannels source)"
    and spec: "MixerSource_MixerSpec source j = Inr map'"
    and flags: "findChannelFlags (mNumChannels m) map' (GetChannel (mChannels source ! j)) =
                  Inr flags"
    and mix: "MixBuffers_channels [0..<mNumChannels m] flags ?gains (mFloatBuffers m ! j)
                (mTemp m) len = Inr dests"
    and m': "m' = m\<lparr> mTemp := dests \<rparr>"
    by (auto simp: mixChannel_def MixerSource_GetChannel_def nth_checked_def MixBuffers_def
        Let_def split: if_splits sum.splits)
  have g: "?gains ! c = (if mApplyTrackGains m then GetChannelGain (mChannels source ! j) c else 1)"
    using assms(2) by simp
  from MixBuffers_channels_nth [OF mix _ assms(3,4)] assms(2)
  have "dests ! c ! i = mTemp m ! c ! i +
      (if flags ! c \<and> i < len then mFloatBuffers m ! j ! i * ?gains ! c else 0)"
    by simp
  then show ?thesis
    unfolding g by (simp add: m' contribution_def spec flags)
qed

lemma mixChannels_nth:
  assumes "mixChannels m source len js = Inr m'"
    and "c < mNumChannels m" and "c < length (mTemp m)" and "i < length (mTemp m ! c)"
  shows "mTemp m' ! c ! i =
           mTemp m ! c ! i +
           (if i < len
            then (\<Sum>j\<leftarrow>js. contribution (mNumChannels m) (mApplyTrackGains m)
                               (mFloatBuffers m) source j c i)
            else 0)"
  using assms
proof (induction js arbitrary: m)
  case Nil
  then show ?case by simp
next
  case (Cons j js)
  from Cons.prems(1) obtain m1 where m1: "mixChannel m source len j = Inr m1"
    and rest: "mixChannels m1 source len js = Inr m'"
    by (auto split: sum.splits)
  from mixChannel_lengths [OF m1] obtain d1 where d1: "m1 = m\<lparr> mTemp := d1 \<rparr>"
    and l1: "map length d1 = map length (mTemp m)" by blast
  from l1 have len1: "length d1 = length (mTemp m)" by (rule map_eq_imp_length_eq)
  from l1 Cons.prems(3) have row: "length (d1 ! c) = length (mTemp m ! c)"
    by (metis len1 nth_map)
  have "mTemp m' ! c ! i = mTemp m1 ! c ! i +
           (if i < len
            then (\<Sum>j\<leftarrow>js. contribution (mNumChannels m1) (mApplyTrackGains m1)
                               (mFloatBuffers m1) source j c i)
            else 0)"
    by (rule Cons.IH [OF rest]) (use Cons.prems d1 len1 row in simp_all)
  with mixChannel_nth [OF m1 Cons.prems(2-4)] show ?case
    by (simp add: d1)
qed

lemma mixSource_nth:
  assumes "mixSource m source len = Inr m'"
    and "c < mNumChannels m" and "c < length (mTemp m)" and "i < length (mTemp m ! c)"
  shows "mTemp m' ! c ! i =
           mTemp m ! c ! i +
           (if i < len
            then (\<Sum>j<min (MixerSource_Channels source) (length (mFloatBuffers m)).
                    contribution (mNumChannels m) (mApplyTrackGains m) (mFloatBuffers m)
                      source j c i)
            else 0)"
  using mixChannels_nth [OF assms [unfolded mixSource_def]]
  by (simp add: mixedChannels_def interv_sum_list_conv_sum_set_nat atLeast0LessThan)

lemma mixChannels_cong:
  "(\<And>m j. j \<in> set js \<Longrightarrow> mixChannel m source len j = mixChannel m source' len j) \<Longrightarrow>
     mixChannels m source len js = mixChannels m source' len js"
  by (induction js arbitrary: m) (simp_all split: sum.splits)

subsection \<open>The loop over the sources\<close>

lemma sourceFits_mState:
  "sourceFits numChannels maxChannels (source\<lparr> mState := state' \<rparr>) =
     sourceFits numChannels maxChannels source"
  by (simp add: sourceFits_def split: option.splits)

lemma AcquireBoundedD:
  assumes "AcquireBounded acquire"
    and "acquire source buffers bound tas = (oResult, state', buffers', time')"
  shows "map length buffers' = map length buffers"
    and "oResult = Some result \<Longrightarrow> result \<le> bound"
  using assms unfolding AcquireBounded_def
  by (metis (mono_tags, lifting) case_prod_conv)+

lemma Process_sources_total:
  assumes "AcquireBounded acquire"
    and "0 < mNumChannels m" and "length (mTemp m) = mNumChannels m"
    and "\<forall>n \<in> set (map length (mTemp m)). bound \<le> n"
    and "\<forall>n \<in> set (map length (mFloatBuffers m)). bound \<le> n"
    and "\<forall>source \<in> set rest. sourceFits (mNumChannels m) (length (mFloatBuffers m)) source"
    and "maxOut \<le> bound"
  shows "(\<exists>m'. Process_sources acquire bound done rest maxOut m = Inr (Returned0 m'))
       \<or> (\<exists>k m'. Process_sources acquire bound done rest maxOut m = Inr (RanThrough k m')
              \<and> k \<le> bound)"
  using assms(2-)
proof (induction rest arbitrary: "done" maxOut m)
  case Nil
  then show ?case by simp
next
  case (Cons source rest)
  obtain oResult state' buffers' time'
    where acq: "acquire source (mFloatBuffers m) bound (mTimesAndSpeed m) =
                  (oResult, state', buffers', time')"
    by (cases "acquire source (mFloatBuffers m) bound (mTimesAndSpeed m)") blast
  note shape = AcquireBoundedD(1) [OF assms(1) acq]
  then have len: "length buffers' = length (mFloatBuffers m)"
    by (rule map_eq_imp_length_eq)
  let ?source = "source\<lparr> mState := state' \<rparr>"
  let ?m = "m\<lparr> mFloatBuffers := buffers',
               mTimesAndSpeed := (mTimesAndSpeed m)\<lparr> mTime := time' \<rparr> \<rparr>"
  show ?case
  proof (cases oResult)
    case None
    with acq show ?thesis by simp
  next
    case (Some result)
    from AcquireBoundedD(2) [OF assms(1) acq Some] have res: "result \<le> bound" .
    have "\<exists>d. mixSource ?m ?source result = Inr (?m\<lparr> mTemp := d \<rparr>)
           \<and> map length d = map length (mTemp ?m)"
    proof (rule mixSource_shape)
      show "0 < mNumChannels ?m" using Cons.prems(1) by simp
      show "length (mTemp ?m) = mNumChannels ?m" using Cons.prems(2) by simp
      show "\<forall>n \<in> set (map length (mTemp ?m)). result \<le> n"
        using Cons.prems(3) res by auto
      show "\<forall>n \<in> set (map length (mFloatBuffers ?m)). result \<le> n"
        using Cons.prems(4) res shape by auto
      show "sourceFits (mNumChannels ?m) (length (mFloatBuffers ?m)) ?source"
        using Cons.prems(5) len by (simp add: sourceFits_mState)
    qed
    then obtain d where mix: "mixSource ?m ?source result = Inr (?m\<lparr> mTemp := d \<rparr>)"
      and ld: "map length d = map length (mTemp m)" by auto
    from ld have lend: "length d = length (mTemp m)" by (rule map_eq_imp_length_eq)
    have "(\<exists>m'. Process_sources acquire bound (done @ [?source]) rest (max maxOut result)
                  (?m\<lparr> mTemp := d \<rparr>) = Inr (Returned0 m'))
       \<or> (\<exists>k m'. Process_sources acquire bound (done @ [?source]) rest (max maxOut result)
                  (?m\<lparr> mTemp := d \<rparr>) = Inr (RanThrough k m') \<and> k \<le> bound)"
    proof (rule Cons.IH)
      show "0 < mNumChannels (?m\<lparr> mTemp := d \<rparr>)" using Cons.prems(1) by simp
      show "length (mTemp (?m\<lparr> mTemp := d \<rparr>)) = mNumChannels (?m\<lparr> mTemp := d \<rparr>)"
        using Cons.prems(2) lend by simp
      show "\<forall>n \<in> set (map length (mTemp (?m\<lparr> mTemp := d \<rparr>))). bound \<le> n"
        using Cons.prems(3) ld by simp
      show "\<forall>n \<in> set (map length (mFloatBuffers (?m\<lparr> mTemp := d \<rparr>))). bound \<le> n"
        using Cons.prems(4) shape by simp
      show "\<forall>source \<in> set rest. sourceFits (mNumChannels (?m\<lparr> mTemp := d \<rparr>))
              (length (mFloatBuffers (?m\<lparr> mTemp := d \<rparr>))) source"
        using Cons.prems(5) len by simp
      show "max maxOut result \<le> bound" using Cons.prems(6) res by simp
    qed
    with acq Some mix show ?thesis by simp
  qed
qed

lemma mixChannel_mSources:
  "mixChannel (m\<lparr> mSources := x \<rparr>) source len j =
     (case mixChannel m source len j of Inl e \<Rightarrow> Inl e | Inr m' \<Rightarrow> Inr (m'\<lparr> mSources := x \<rparr>))"
  by (simp add: mixChannel_def Let_def split: sum.splits)

lemma mixChannels_mSources:
  "mixChannels (m\<lparr> mSources := x \<rparr>) source len js =
     (case mixChannels m source len js of Inl e \<Rightarrow> Inl e | Inr m' \<Rightarrow> Inr (m'\<lparr> mSources := x \<rparr>))"
  by (induction js arbitrary: m) (simp_all add: mixChannel_mSources split: sum.splits)

lemma mixSource_mSources:
  "mixSource (m\<lparr> mSources := x \<rparr>) source len =
     (case mixSource m source len of Inl e \<Rightarrow> Inl e | Inr m' \<Rightarrow> Inr (m'\<lparr> mSources := x \<rparr>))"
  by (simp add: mixSource_def mixedChannels_def mixChannels_mSources)

lemma Process_sources_mSources:
  "Process_sources acquire bound done rest maxOut (m\<lparr> mSources := x \<rparr>) =
     Process_sources acquire bound done rest maxOut m"
proof (induction rest arbitrary: "done" maxOut m)
  case Nil
  show ?case by simp
next
  case (Cons source rest)
  show ?case
  proof (cases "acquire source (mFloatBuffers m) bound (mTimesAndSpeed m)")
    case (fields oResult state' buffers' time')
    let ?m = "m\<lparr> mFloatBuffers := buffers',
                 mTimesAndSpeed := (mTimesAndSpeed m)\<lparr> mTime := time' \<rparr> \<rparr>"
    have upd: "m\<lparr> mSources := x, mFloatBuffers := buffers',
                 mTimesAndSpeed := (mTimesAndSpeed m)\<lparr> mTime := time' \<rparr> \<rparr> = ?m\<lparr> mSources := x \<rparr>"
      by simp
    show ?thesis
    proof (cases oResult)
      case None
      with fields show ?thesis by (simp add: Let_def)
    next
      case (Some result)
      show ?thesis
      proof (cases "mixSource ?m (source\<lparr> mState := state' \<rparr>) result")
        case (Inl e)
        with fields Some show ?thesis
          by (simp add: Let_def upd mixSource_mSources)
      next
        case (Inr m'')
        with fields Some Cons.IH [of "done @ [source\<lparr> mState := state' \<rparr>]" "max maxOut result" m'']
        show ?thesis
          by (simp add: Let_def upd mixSource_mSources)
      qed
    qed
  qed
qed

lemma Process_sources_append:
  "Process_sources acquire bound done (pre @ rest) maxOut m =
     (case Process_sources acquire bound done pre maxOut m of
        Inl e \<Rightarrow> Inl e
      | Inr (Returned0 m') \<Rightarrow> Inr (Returned0 (m'\<lparr> mSources := mSources m' @ rest \<rparr>))
      | Inr (RanThrough maxOut' m') \<Rightarrow>
          Process_sources acquire bound (mSources m') rest maxOut' m')"
proof (induction pre arbitrary: "done" maxOut m)
  case Nil
  show ?case by (simp add: Process_sources_mSources)
next
  case (Cons source pre)
  show ?case
  proof (cases "acquire source (mFloatBuffers m) bound (mTimesAndSpeed m)")
    case (fields oResult state' buffers' time')
    show ?thesis
    proof (cases oResult)
      case None
      with fields show ?thesis by (simp add: Let_def)
    next
      case (Some result)
      with fields Cons.IH show ?thesis
        by (cases "mixSource (m\<lparr> mFloatBuffers := buffers',
                 mTimesAndSpeed := (mTimesAndSpeed m)\<lparr> mTime := time' \<rparr> \<rparr>)
                 (source\<lparr> mState := state' \<rparr>) result") (simp_all add: Let_def)
    qed
  qed
qed

lemma Process_sources_length:
  "Process_sources acquire bound done rest maxOut m = Inr (RanThrough maxOut' m') \<Longrightarrow>
     length (mSources m') = length done + length rest"
proof (induction rest arbitrary: "done" maxOut m)
  case Nil
  then show ?case by auto
next
  case (Cons source rest)
  show ?case
  proof (cases "acquire source (mFloatBuffers m) bound (mTimesAndSpeed m)")
    case (fields oResult state' buffers' time')
    with Cons.prems obtain result m''
      where "Process_sources acquire bound (done @ [source\<lparr> mState := state' \<rparr>]) rest
               (max maxOut result) m'' = Inr (RanThrough maxOut' m')"
      by (auto simp: Let_def split: option.splits sum.splits)
    from Cons.IH [OF this] show ?thesis by simp
  qed
qed

lemma Process_sources_bounds:
  "Process_sources acquire bound done rest maxOut m = Inr (RanThrough maxOut' m') \<Longrightarrow>
     mT0 (mTimesAndSpeed m') = mT0 (mTimesAndSpeed m)
     \<and> mT1 (mTimesAndSpeed m') = mT1 (mTimesAndSpeed m)"
proof (induction rest arbitrary: "done" maxOut m)
  case Nil
  then show ?case by auto
next
  case (Cons source rest)
  show ?case
  proof (cases "acquire source (mFloatBuffers m) bound (mTimesAndSpeed m)")
    case (fields oResult state' buffers' time')
    let ?m = "m\<lparr> mFloatBuffers := buffers',
                 mTimesAndSpeed := (mTimesAndSpeed m)\<lparr> mTime := time' \<rparr> \<rparr>"
    from fields Cons.prems obtain result m''
      where mix: "mixSource ?m (source\<lparr> mState := state' \<rparr>) result = Inr m''"
        and run: "Process_sources acquire bound (done @ [source\<lparr> mState := state' \<rparr>]) rest
               (max maxOut result) m'' = Inr (RanThrough maxOut' m')"
      by (auto simp: Let_def split: option.splits sum.splits)
    from mixSource_frame [OF mix] obtain d where "m'' = ?m\<lparr> mTemp := d \<rparr>" by blast
    with Cons.IH [OF run] show ?thesis by simp
  qed
qed

lemma Max_insert_max:
  "finite A \<Longrightarrow> Max (insert (max a b) A) = max a (Max (insert b A))" for a :: nat
  by (cases "A = {}") (simp_all add: max.assoc)

lemma Process_sources_maxOut:
  "Process_sources acquire bound done rest maxOut m = Inr (RanThrough maxOut' m') \<Longrightarrow>
     maxOut' = Max (set (maxOut # acquiredCounts acquire bound rest m))
     \<and> length (acquiredCounts acquire bound rest m) = length rest"
proof (induction rest arbitrary: "done" maxOut m)
  case Nil
  then show ?case by auto
next
  case (Cons source rest)
  show ?case
  proof (cases "acquire source (mFloatBuffers m) bound (mTimesAndSpeed m)")
    case (fields oResult state' buffers' time')
    let ?m = "m\<lparr> mFloatBuffers := buffers',
                 mTimesAndSpeed := (mTimesAndSpeed m)\<lparr> mTime := time' \<rparr> \<rparr>"
    from fields Cons.prems obtain result m''
      where res: "oResult = Some result"
        and mix: "mixSource ?m (source\<lparr> mState := state' \<rparr>) result = Inr m''"
        and run: "Process_sources acquire bound (done @ [source\<lparr> mState := state' \<rparr>]) rest
               (max maxOut result) m'' = Inr (RanThrough maxOut' m')"
      by (auto simp: Let_def split: option.splits sum.splits)
    from Cons.IH [OF run]
    have "maxOut' = Max (set (max maxOut result # acquiredCounts acquire bound rest m''))"
      and len: "length (acquiredCounts acquire bound rest m'') = length rest"
      by simp_all
    moreover have "acquiredCounts acquire bound (source # rest) m =
        result # acquiredCounts acquire bound rest m''"
      using fields res mix by simp
    moreover have "Max (set (max maxOut result # acquiredCounts acquire bound rest m'')) =
        Max (set (maxOut # result # acquiredCounts acquire bound rest m''))"
      by (simp add: Max_insert_max)
    ultimately show ?thesis by simp
  qed
qed

lemma ranThroughE:
  assumes "ranThrough acquire m maxToProcess"
  obtains maxOut m1 where
    "Process_sources acquire maxToProcess [] (mSources m) 0 (Clear m) = Inr (RanThrough maxOut m1)"
  using assms unfolding ranThrough_def
  by (auto split: sum.splits loop_end.splits)

lemma Process_ranThrough:
  assumes "Process_sources acquire maxToProcess [] (mSources m) 0 (Clear m) =
             Inr (RanThrough maxOut m1)"
    and "Process acquire m maxToProcess = Inr (n, m')"
  shows "mT0 (mTimesAndSpeed m') = mT0 (mTimesAndSpeed m)"
    and "mT1 (mTimesAndSpeed m') = mT1 (mTimesAndSpeed m)"
    and "mTime (mTimesAndSpeed m') =
           (if mT0 (mTimesAndSpeed m) > mT1 (mTimesAndSpeed m)
            then std_clamp (mTime (mTimesAndSpeed m1)) (mT1 (mTimesAndSpeed m))
                   (mTime (mTimesAndSpeed m))
            else std_clamp (mTime (mTimesAndSpeed m1)) (mTime (mTimesAndSpeed m))
                   (mT1 (mTimesAndSpeed m)))"
proof -
  from Process_sources_bounds [OF assms(1)]
  have b: "mT0 (mTimesAndSpeed m1) = mT0 (mTimesAndSpeed m)"
    "mT1 (mTimesAndSpeed m1) = mT1 (mTimesAndSpeed m)"
    by (simp_all add: Clear_def)
  from assms(2) have m': "m' = m1\<lparr> mTimesAndSpeed := (mTimesAndSpeed m1)\<lparr> mTime :=
      (if mT0 (mTimesAndSpeed m) > mT1 (mTimesAndSpeed m)
       then std_clamp (mTime (mTimesAndSpeed m1)) (mT1 (mTimesAndSpeed m1))
              (mTime (mTimesAndSpeed m))
       else std_clamp (mTime (mTimesAndSpeed m1)) (mTime (mTimesAndSpeed m))
              (mT1 (mTimesAndSpeed m1))) \<rparr> \<rparr>"
    by (simp add: Process_def assms(1) Let_def split: if_splits)
  show "mT0 (mTimesAndSpeed m') = mT0 (mTimesAndSpeed m)"
    and "mT1 (mTimesAndSpeed m') = mT1 (mTimesAndSpeed m)"
    and "mTime (mTimesAndSpeed m') =
           (if mT0 (mTimesAndSpeed m) > mT1 (mTimesAndSpeed m)
            then std_clamp (mTime (mTimesAndSpeed m1)) (mT1 (mTimesAndSpeed m))
                   (mTime (mTimesAndSpeed m))
            else std_clamp (mTime (mTimesAndSpeed m1)) (mTime (mTimesAndSpeed m))
                   (mT1 (mTimesAndSpeed m)))"
    by (simp_all add: m' b)
qed

lemma Process_sources_nth:
  assumes keep: "\<forall>source buffers bound tas.
      length (fst (snd (snd (acquire source buffers bound tas)))) = length buffers"
    and "Process_sources acquire bound done rest maxOut m = Inr end"
    and "end = Returned0 m' \<or> end = RanThrough maxOut' m'"
    and "length (mFloatBuffers m) = 2"
    and "c < mNumChannels m" and "c < length (mTemp m)" and "i < length (mTemp m ! c)"
  shows "mTemp m' ! c ! i =
           mTemp m ! c ! i +
           (\<Sum>(buffers, source, result)\<leftarrow>acquiredFrames acquire bound rest m.
              if i < result
              then (\<Sum>j<min (MixerSource_Channels source) 2.
                      contribution (mNumChannels m) (mApplyTrackGains m) buffers source j c i)
              else 0)"
  using assms(2-)
proof (induction rest arbitrary: "done" maxOut m)
  case Nil
  then show ?case by auto
next
  case (Cons source rest)
  show ?case
  proof (cases "acquire source (mFloatBuffers m) bound (mTimesAndSpeed m)")
    case (fields oResult state' buffers' time')
    from keep [rule_format, of source "mFloatBuffers m" bound "mTimesAndSpeed m"] fields
    have two: "length buffers' = 2"
      using Cons.prems(3) by simp
    let ?m = "m\<lparr> mFloatBuffers := buffers',
                 mTimesAndSpeed := (mTimesAndSpeed m)\<lparr> mTime := time' \<rparr> \<rparr>"
    let ?s = "source\<lparr> mState := state' \<rparr>"
    show ?thesis
    proof (cases oResult)
      case None
      with fields Cons.prems show ?thesis
        by (auto simp: Let_def)
    next
      case (Some result)
      with fields Cons.prems(1) obtain m''
        where mix: "mixSource ?m ?s result = Inr m''"
          and run: "Process_sources acquire bound (done @ [?s]) rest (max maxOut result) m'' =
                      Inr end"
        by (auto simp: Let_def split: sum.splits)
      from mix obtain d where m'': "m'' = ?m\<lparr> mTemp := d \<rparr>"
        and ld: "map length d = map length (mTemp m)"
        unfolding mixSource_def by (auto dest: mixChannels_lengths)
      from ld have lend: "length d = length (mTemp m)" by (rule map_eq_imp_length_eq)
      from ld Cons.prems(5) have row: "length (d ! c) = length (mTemp m ! c)"
        by (metis lend nth_map)
      have step: "mTemp m'' ! c ! i = mTemp m ! c ! i +
           (if i < result
            then (\<Sum>j<min (MixerSource_Channels ?s) 2.
                    contribution (mNumChannels m) (mApplyTrackGains m) buffers' ?s j c i)
            else 0)"
        using mixSource_nth [OF mix, of c i] Cons.prems(4-6) two by simp
      have ih: "mTemp m' ! c ! i = mTemp m'' ! c ! i +
           (\<Sum>(buffers, source, result)\<leftarrow>acquiredFrames acquire bound rest m''.
              if i < result
              then (\<Sum>j<min (MixerSource_Channels source) 2.
                      contribution (mNumChannels m'') (mApplyTrackGains m'') buffers source j c i)
              else 0)"
        by (rule Cons.IH [OF run Cons.prems(2)])
           (use Cons.prems(4-6) two lend row in \<open>simp_all add: m''\<close>)
      have nc: "mNumChannels m'' = mNumChannels m"
        and ag: "mApplyTrackGains m'' = mApplyTrackGains m"
        by (simp_all add: m'')
      have fr: "acquiredFrames acquire bound (source # rest) m =
          (buffers', ?s, result) # acquiredFrames acquire bound rest m''"
        using fields Some mix by simp
      show ?thesis
        unfolding fr using ih [unfolded nc ag] step by simp
    qed
  qed
qed

lemma acquiredFrames_sources:
  "Process_sources acquire bound done rest maxOut m = Inr (RanThrough maxOut' m') \<Longrightarrow>
     map (\<lambda>(buffers, source, result). mChannels source) (acquiredFrames acquire bound rest m) =
       map mChannels rest"
proof (induction rest arbitrary: "done" maxOut m)
  case Nil
  then show ?case by simp
next
  case (Cons source rest)
  show ?case
  proof (cases "acquire source (mFloatBuffers m) bound (mTimesAndSpeed m)")
    case (fields oResult state' buffers' time')
    with Cons.prems obtain result m''
      where "oResult = Some result"
        and "mixSource (m\<lparr> mFloatBuffers := buffers',
                 mTimesAndSpeed := (mTimesAndSpeed m)\<lparr> mTime := time' \<rparr> \<rparr>)
               (source\<lparr> mState := state' \<rparr>) result = Inr m''"
        and run: "Process_sources acquire bound (done @ [source\<lparr> mState := state' \<rparr>]) rest
               (max maxOut result) m'' = Inr (RanThrough maxOut' m')"
      by (auto simp: Let_def split: option.splits sum.splits)
    with fields Cons.IH [OF run] show ?thesis by simp
  qed
qed

text \<open>The shape is an invariant: the constructor establishes it
  (\<open>Mixer_Mixer_shaped\<close>), and \<^verbatim>\<open>Process\<close>, with sources that keep the contract of
  \<^verbatim>\<open>Acquire\<close>, and the functions that reposition keep it.\<close>

lemma Process_sources_shape:
  assumes "AcquireBounded acquire"
    and "Process_sources acquire bound done rest maxOut m = Inr end"
    and "end = Returned0 m' \<or> end = RanThrough maxOut' m'"
  shows "sameShape m' m
       \<and> map mChannels (mSources m') = map mChannels (done @ rest)
       \<and> map mpMap (mSources m') = map mpMap (done @ rest)"
  using assms(2,3)
proof (induction rest arbitrary: "done" maxOut m)
  case Nil
  then show ?case by (auto simp: sameShape_def)
next
  case (Cons source rest)
  show ?case
  proof (cases "acquire source (mFloatBuffers m) bound (mTimesAndSpeed m)")
    case (fields oResult state' buffers' time')
    note shape = AcquireBoundedD(1) [OF assms(1) fields]
    let ?m = "m\<lparr> mFloatBuffers := buffers',
                 mTimesAndSpeed := (mTimesAndSpeed m)\<lparr> mTime := time' \<rparr> \<rparr>"
    show ?thesis
    proof (cases oResult)
      case None
      with fields Cons.prems shape show ?thesis
        by (auto simp: sameShape_def Let_def)
    next
      case (Some result)
      with fields Cons.prems obtain m''
        where mix: "mixSource ?m (source\<lparr> mState := state' \<rparr>) result = Inr m''"
          and run: "Process_sources acquire bound (done @ [source\<lparr> mState := state' \<rparr>]) rest
               (max maxOut result) m'' = Inr end"
        by (auto simp: Let_def split: sum.splits)
      from mix obtain d where "m'' = ?m\<lparr> mTemp := d \<rparr>"
        and "map length d = map length (mTemp m)"
        unfolding mixSource_def by (auto dest: mixChannels_lengths)
      with shape have "sameShape m'' m" by (simp add: sameShape_def)
      with Cons.IH [OF run Cons.prems(2)] show ?thesis
        by (simp add: sameShape_def)
    qed
  qed
qed

lemma sourceFits_cong:
  "mChannels s' = mChannels s \<Longrightarrow> mpMap s' = mpMap s \<Longrightarrow>
     sourceFits numChannels maxChannels s' = sourceFits numChannels maxChannels s"
  by (cases "mpMap s") (simp_all add: sourceFits_def)

lemma sourceFits_all_cong:
  assumes "map mChannels sources' = map mChannels sources"
    and "map mpMap sources' = map mpMap sources"
    and "\<forall>s \<in> set sources. sourceFits numChannels maxChannels s"
  shows "\<forall>s \<in> set sources'. sourceFits numChannels maxChannels s"
proof
  fix s' assume "s' \<in> set sources'"
  then obtain i where i: "i < length sources'" and s': "s' = sources' ! i"
    by (auto simp: in_set_conv_nth)
  from assms(1) have len: "length sources' = length sources"
    by (rule map_eq_imp_length_eq)
  from assms(1) i len have c: "mChannels (sources' ! i) = mChannels (sources ! i)"
    by (metis nth_map)
  from assms(2) i len have p: "mpMap (sources' ! i) = mpMap (sources ! i)"
    by (metis nth_map)
  from assms(3) i len have "sourceFits numChannels maxChannels (sources ! i)"
    by simp
  with sourceFits_cong [OF c p, of numChannels maxChannels] s'
  show "sourceFits numChannels maxChannels s'"
    by blast
qed

lemma Process_shaped:
  assumes "Mixer_shaped m" and "AcquireBounded acquire"
    and "Process acquire m maxToProcess = Inr (n, m')"
  shows "Mixer_shaped m'"
proof -
  from assms(3) obtain e m1 maxOut where
    run: "Process_sources acquire maxToProcess [] (mSources m) 0 (Clear m) = Inr e"
    and e: "e = Returned0 m1 \<or> e = RanThrough maxOut m1"
    and m': "m' = m1 \<or> (\<exists>t. m' = m1\<lparr> mTimesAndSpeed := t \<rparr>)"
    by (auto simp: Process_def Let_def split: if_splits sum.splits loop_end.splits)
  from Process_sources_shape [OF assms(2) run e]
  have sh: "sameShape m1 (Clear m)"
    and ch: "map mChannels (mSources m1) = map mChannels (mSources m)"
    and mp: "map mpMap (mSources m1) = map mpMap (mSources m)"
    by simp_all
  from assms(1) have fits: "\<forall>s \<in> set (mSources m).
      sourceFits (mNumChannels m) (length (mFloatBuffers m)) s"
    by (simp add: Mixer_shaped_def)
  note fits1 = sourceFits_all_cong [OF ch mp fits]
  from sh have lens: "length (mFloatBuffers m1) = length (mFloatBuffers m)"
    "length (mTemp m1) = length (mTemp m)"
    by (auto simp: sameShape_def Clear_def dest: map_eq_imp_length_eq)
  from sh assms(1) fits1 lens have "Mixer_shaped m1"
    by (simp add: Mixer_shaped_def sameShape_def Clear_def)
  with m' show ?thesis
    by (auto simp: Mixer_shaped_def)
qed

lemma Reposition_shaped:
  "Mixer_shaped (Reposition reposition m t bSkipping) = Mixer_shaped m"
  by (simp add: Mixer_shaped_def Reposition_def Let_def sourceFits_mState)

lemma SetTimesAndSpeed_shaped:
  "Mixer_shaped (SetTimesAndSpeed reposition m t0 t1 speed bSkipping) = Mixer_shaped m"
  by (simp add: SetTimesAndSpeed_def Reposition_shaped) (simp add: Mixer_shaped_def)

lemma SetSpeedForKeyboardScrubbing_shaped:
  "Mixer_shaped (SetSpeedForKeyboardScrubbing reposition m speed startTime) = Mixer_shaped m"
  by (simp add: SetSpeedForKeyboardScrubbing_def Let_def Mixer_shaped_def Reposition_def
      sourceFits_mState)

subsection \<open>Example runs\<close>

lemmas ex_defs = ex_mixer_def ex_source_def ex_left_def ex_right_def ex_mono_def ex_empty_def
  ex_acquire_def

lemmas run_defs = Process_def Clear_def mixSource_def mixedChannels_def MixerSource_Channels_def
  mixChannel_def MixerSource_GetChannel_def MixerSource_MixerSpec_def findChannelFlags_def
  setFlag_def MixBuffers_def mixInto_def nth_checked_def std_clamp_def Let_def

lemma upt2: "[0..<2] = [0, Suc 0]"
  by (simp add: upt_rec numeral_2_eq_2)

lemma ex_prefix_run:
  "Process_sources ex_acquire 1 [] [ex_source [ex_left, ex_right] None (0, False)] 0
     (Clear (ex_mixer 2 False
        [ex_source [ex_left, ex_right] None (0, False),
         ex_source [ex_empty] None (0, True),
         ex_source [ex_mono] None (0, False)])) =
   Inr (RanThrough 1
     ((ex_mixer 2 False [ex_source [ex_left, ex_right] None (1, False)])
        \<lparr> mTimesAndSpeed := \<lparr> mT0 = 98, mT1 = 100, mSpeed = 1, mTime = 103 \<rparr>,
          mFloatBuffers := [[1, 1], [2, 2]],
          mTemp := [[1], [2]] \<rparr>))"
  by (simp add: ex_defs run_defs upt2 numeral_2_eq_2)

lemma ex_run_abort:
  "Process ex_acquire
     (ex_mixer 2 False
        [ex_source [ex_left, ex_right] None (0, False),
         ex_source [ex_empty] None (0, True),
         ex_source [ex_mono] None (0, False)]) 1 =
   Inr (0,
     (ex_mixer 2 False
        [ex_source [ex_left, ex_right] None (1, False),
         ex_source [ex_empty] None (1, True),
         ex_source [ex_mono] None (0, False)])
        \<lparr> mTimesAndSpeed := \<lparr> mT0 = 98, mT1 = 100, mSpeed = 1, mTime = 103 \<rparr>,
          mFloatBuffers := [[1, 1], [2, 2]],
          mTemp := [[1], [2]] \<rparr>)"
  by (simp add: ex_defs run_defs upt2 numeral_2_eq_2)

lemma ex_run_through:
  "Process ex_acquire
     (ex_mixer 2 False
        [ex_source [ex_left, ex_right] None (0, False),
         ex_source [ex_mono] None (0, False)]) 1 =
   Inr (1,
     (ex_mixer 2 False
        [ex_source [ex_left, ex_right] None (1, False),
         ex_source [ex_mono] None (1, False)])
        \<lparr> mTimesAndSpeed := \<lparr> mT0 = 98, mT1 = 100, mSpeed = 1, mTime = 100 \<rparr>,
          mFloatBuffers := [[1, 1], [2, 2]],
          mTemp := [[2], [3]] \<rparr>)"
  by (simp add: ex_defs run_defs upt2 numeral_2_eq_2)

lemma ex_run_mono_output:
  "Process ex_acquire (ex_mixer 1 False [ex_source [ex_left, ex_right] None (0, False)]) 1 =
   Inr (1,
     (ex_mixer 1 False [ex_source [ex_left, ex_right] None (1, False)])
        \<lparr> mTimesAndSpeed := \<lparr> mT0 = 98, mT1 = 100, mSpeed = 1, mTime = 100 \<rparr>,
          mFloatBuffers := [[1, 1], [2, 2]],
          mTemp := [[3]] \<rparr>)"
  by (simp add: ex_defs run_defs upt2 numeral_2_eq_2)

lemma ex_run_backwards:
  "Process ex_acquire
     ((ex_mixer 2 False [ex_source [ex_mono] None (0, False)])
        \<lparr> mTimesAndSpeed := \<lparr> mT0 = 100, mT1 = 98, mSpeed = 1, mTime = 99 \<rparr> \<rparr>) 1 =
   Inr (1,
     (ex_mixer 2 False [ex_source [ex_mono] None (1, False)])
        \<lparr> mTimesAndSpeed := \<lparr> mT0 = 100, mT1 = 98, mSpeed = 1, mTime = 99 \<rparr>,
          mFloatBuffers := [[1, 1], [2, 2]],
          mTemp := [[1], [1]] \<rparr>)"
  by (simp add: ex_defs run_defs upt2 numeral_2_eq_2)

lemma ex_acquire_keeps_buffers:
  "\<forall>source buffers bound tas.
      length (fst (snd (snd (ex_acquire source buffers bound tas)))) = length buffers"
  by (simp add: ex_acquire_def)

lemma ex_frames_mono_output:
  "acquiredFrames ex_acquire 1
     (mSources (ex_mixer 1 False [ex_source [ex_left, ex_right] None (0, False)]))
     (Clear (ex_mixer 1 False [ex_source [ex_left, ex_right] None (0, False)])) =
   [([[1, 1], [2, 2]], ex_source [ex_left, ex_right] None (1, False), 1)]"
  by (simp add: ex_defs run_defs upt2 numeral_2_eq_2)

lemma ex_run_three_channels:
  "Process ex_acquire
     (ex_mixer 4 False [ex_source [ex_left, ex_right, ex_mono] None (0, False)]) 1 =
   Inr (1,
     (ex_mixer 4 False [ex_source [ex_left, ex_right, ex_mono] None (1, False)])
        \<lparr> mTimesAndSpeed := \<lparr> mT0 = 98, mT1 = 100, mSpeed = 1, mTime = 100 \<rparr>,
          mFloatBuffers := [[1, 1], [2, 2]],
          mTemp := [[1], [2], [0], [0]] \<rparr>)"
  by (simp add: ex_defs run_defs upt2 numeral_2_eq_2 numeral_eq_Suc)

lemma ex_acquire_bounded: "AcquireBounded ex_acquire"
  by (auto simp: AcquireBounded_def ex_acquire_def intro!: nth_equalityI)

subsection \<open>Process: the count returned\<close>

text \<open>
  Claim C1. For a mixer of the shape the constructor gives, a request \<open>maxToProcess\<close>
  of at most the buffer size, and sources whose \<^verbatim>\<open>Acquire\<close> keeps its contract
  (a count of at most the bound it is given), \<^verbatim>\<open>Process\<close> returns, without a failed
  assertion and without an access out of bounds, a count of at most \<open>maxToProcess\<close>.
  That count is the largest of the counts that the sources' \<^verbatim>\<open>Acquire\<close> returned (0
  without sources) when the loop over the sources ran through, and 0 when it did not.
\<close>

theorem Process_bounded:
  assumes "maxToProcess \<le> mBufferSize m" and "Mixer_shaped m" and "AcquireBounded acquire"
  shows "\<exists>n m'. Process acquire m maxToProcess = Inr (n, m') \<and> n \<le> maxToProcess
           \<and> (if ranThrough acquire m maxToProcess
               then n = Max (set (0 # acquiredCounts acquire maxToProcess (mSources m) (Clear m)))
               else n = 0)"
proof -
  have "(\<exists>m'. Process_sources acquire maxToProcess [] (mSources m) 0 (Clear m) = Inr (Returned0 m'))
       \<or> (\<exists>k m'. Process_sources acquire maxToProcess [] (mSources m) 0 (Clear m) =
              Inr (RanThrough k m') \<and> k \<le> maxToProcess)"
  proof (rule Process_sources_total [OF assms(3)])
    show "0 < mNumChannels (Clear m)" using assms(2) by (simp add: Mixer_shaped_def Clear_def)
    show "length (mTemp (Clear m)) = mNumChannels (Clear m)"
      using assms(2) by (simp add: Mixer_shaped_def Clear_def)
    show "\<forall>n \<in> set (map length (mTemp (Clear m))). maxToProcess \<le> n"
      using assms(1,2) by (simp add: Mixer_shaped_def Clear_def)
    show "\<forall>n \<in> set (map length (mFloatBuffers (Clear m))). maxToProcess \<le> n"
      using assms(1,2) by (auto simp: Mixer_shaped_def Clear_def)
    show "\<forall>source \<in> set (mSources m).
            sourceFits (mNumChannels (Clear m)) (length (mFloatBuffers (Clear m))) source"
      using assms(2) by (simp add: Mixer_shaped_def Clear_def)
    show "(0::nat) \<le> maxToProcess" by simp
  qed
  then show ?thesis
  proof (elim disjE exE conjE)
    fix m'
    assume "Process_sources acquire maxToProcess [] (mSources m) 0 (Clear m) = Inr (Returned0 m')"
    with assms(1) show ?thesis
      by (simp add: Process_def ranThrough_def)
  next
    fix k m'
    assume run: "Process_sources acquire maxToProcess [] (mSources m) 0 (Clear m) =
              Inr (RanThrough k m')" and k: "k \<le> maxToProcess"
    from Process_sources_maxOut [OF run]
    have "k = Max (set (0 # acquiredCounts acquire maxToProcess (mSources m) (Clear m)))"
      by simp
    with run k assms(1) show ?thesis
      by (simp add: Process_def ranThrough_def Let_def)
  qed
qed

theorem Process_bounded_witness:
  "(1::nat) \<le> mBufferSize (ex_mixer 2 False
        [ex_source [ex_left, ex_right] None (0, False), ex_source [ex_mono] None (0, False)])
   \<and> Mixer_shaped (ex_mixer 2 False
        [ex_source [ex_left, ex_right] None (0, False), ex_source [ex_mono] None (0, False)])
   \<and> AcquireBounded ex_acquire
   \<and> map_sum id fst (Process ex_acquire (ex_mixer 2 False
        [ex_source [ex_left, ex_right] None (0, False), ex_source [ex_mono] None (0, False)]) 1) =
       Inr 1"
proof -
  let ?m = "ex_mixer 2 False
        [ex_source [ex_left, ex_right] None (0, False), ex_source [ex_mono] None (0, False)]"
  have size: "(1::nat) \<le> mBufferSize ?m"
    by (simp add: ex_mixer_def)
  have shaped: "Mixer_shaped ?m"
    by (simp add: Mixer_shaped_def sourceFits_def ex_mixer_def ex_source_def)
  from Process_bounded [OF size shaped ex_acquire_bounded]
  have "\<exists>n m'. Process ex_acquire ?m 1 = Inr (n, m') \<and> n \<le> 1" by blast
  then have "map_sum id fst (Process ex_acquire ?m 1) = Inr 1"
    unfolding ex_run_through by simp
  with size shaped ex_acquire_bounded show ?thesis
    by blast
qed

subsection \<open>Process: a source that cannot acquire\<close>

text \<open>
  Claim C2. When the sources before some source have all been acquired from and mixed
  (the loop over them ran through, leaving the mixer \<open>m1\<close>), and the \<^verbatim>\<open>Acquire\<close> of
  that source returns none, then \<^verbatim>\<open>Process\<close> returns 0, and the sources after that
  one are in the mixer as they were before the call: they were not asked to acquire.
\<close>

theorem Process_returns_0_when_Acquire_fails:
  assumes "maxToProcess \<le> mBufferSize m"
    and "mSources m = pre @ source # post"
    and "Process_sources acquire maxToProcess [] pre 0 (Clear m) = Inr (RanThrough maxOut m1)"
    and "acquire source (mFloatBuffers m1) maxToProcess (mTimesAndSpeed m1) =
           (None, state', buffers', time')"
  shows "Process acquire m maxToProcess =
           Inr (0, m1\<lparr> mFloatBuffers := buffers',
                      mTimesAndSpeed := (mTimesAndSpeed m1)\<lparr> mTime := time' \<rparr>,
                      mSources := mSources m1 @ source\<lparr> mState := state' \<rparr> # post \<rparr>)
         \<and> length (mSources m1) = length pre"
proof
  have "Process_sources acquire maxToProcess [] (pre @ source # post) 0 (Clear m) =
          Process_sources acquire maxToProcess (mSources m1) (source # post) maxOut m1"
    by (simp add: Process_sources_append assms(3))
  also have "\<dots> = Inr (Returned0
      (m1\<lparr> mFloatBuffers := buffers',
           mTimesAndSpeed := (mTimesAndSpeed m1)\<lparr> mTime := time' \<rparr>,
           mSources := mSources m1 @ source\<lparr> mState := state' \<rparr> # post \<rparr>))"
    by (simp add: assms(4))
  finally show "Process acquire m maxToProcess =
           Inr (0, m1\<lparr> mFloatBuffers := buffers',
                      mTimesAndSpeed := (mTimesAndSpeed m1)\<lparr> mTime := time' \<rparr>,
                      mSources := mSources m1 @ source\<lparr> mState := state' \<rparr> # post \<rparr>)"
    using assms(1,2) by (simp add: Process_def)
  from Process_sources_length [OF assms(3)] show "length (mSources m1) = length pre"
    by simp
qed

theorem Process_returns_0_when_Acquire_fails_witness:
  "Process ex_acquire
     (ex_mixer 2 False
        [ex_source [ex_left, ex_right] None (0, False),
         ex_source [ex_empty] None (0, True),
         ex_source [ex_mono] None (0, False)]) 1 =
   Inr (0,
     (ex_mixer 2 False
        [ex_source [ex_left, ex_right] None (1, False),
         ex_source [ex_empty] None (1, True),
         ex_source [ex_mono] None (0, False)])
        \<lparr> mTimesAndSpeed := \<lparr> mT0 = 98, mT1 = 100, mSpeed = 1, mTime = 103 \<rparr>,
          mFloatBuffers := [[1, 1], [2, 2]],
          mTemp := [[1], [2]] \<rparr>)"
proof -
  let ?m = "ex_mixer 2 False
        [ex_source [ex_left, ex_right] None (0, False),
         ex_source [ex_empty] None (0, True),
         ex_source [ex_mono] None (0, False)]"
  let ?m1 = "(ex_mixer 2 False [ex_source [ex_left, ex_right] None (1, False)])
        \<lparr> mTimesAndSpeed := \<lparr> mT0 = 98, mT1 = 100, mSpeed = 1, mTime = 103 \<rparr>,
          mFloatBuffers := [[1, 1], [2, 2]],
          mTemp := [[1], [2]] \<rparr>"
  have size: "(1::nat) \<le> mBufferSize ?m"
    by (simp add: ex_mixer_def)
  have sources: "mSources ?m = [ex_source [ex_left, ex_right] None (0, False)]
      @ ex_source [ex_empty] None (0, True) # [ex_source [ex_mono] None (0, False)]"
    by (simp add: ex_mixer_def)
  have fails: "ex_acquire (ex_source [ex_empty] None (0, True)) (mFloatBuffers ?m1) 1
      (mTimesAndSpeed ?m1) = (None, (1, True), [[1, 1], [2, 2]], 103)"
    by (simp add: ex_acquire_def ex_source_def ex_mixer_def)
  from Process_returns_0_when_Acquire_fails [OF size sources ex_prefix_run fails]
  show ?thesis
    by (simp add: ex_mixer_def ex_source_def)
qed

subsection \<open>Process: the current time\<close>

text \<open>
  Claim C3 does not hold of every call: a call of \<^verbatim>\<open>Process\<close> that returns 0 from
  inside the loop does not reach the clamp.
  In the example the mixer runs forwards from 98 to 100 and the current time is 98; the
  first source acquires a frame and moves the time to 103, the second source is
  exhausted; the call returns 0 and leaves the current time at 103, past \<^verbatim>\<open>mT1\<close>.
\<close>

theorem Process_abort_skips_clamp:
  "min (mT0 (mTimesAndSpeed (ex_mixer 2 False
          [ex_source [ex_left, ex_right] None (0, False),
           ex_source [ex_empty] None (0, True),
           ex_source [ex_mono] None (0, False)])))
       (mT1 (mTimesAndSpeed (ex_mixer 2 False
          [ex_source [ex_left, ex_right] None (0, False),
           ex_source [ex_empty] None (0, True),
           ex_source [ex_mono] None (0, False)])))
     \<le> mTime (mTimesAndSpeed (ex_mixer 2 False
          [ex_source [ex_left, ex_right] None (0, False),
           ex_source [ex_empty] None (0, True),
           ex_source [ex_mono] None (0, False)]))
   \<and> mTime (mTimesAndSpeed (ex_mixer 2 False
          [ex_source [ex_left, ex_right] None (0, False),
           ex_source [ex_empty] None (0, True),
           ex_source [ex_mono] None (0, False)]))
     \<le> max (mT0 (mTimesAndSpeed (ex_mixer 2 False
          [ex_source [ex_left, ex_right] None (0, False),
           ex_source [ex_empty] None (0, True),
           ex_source [ex_mono] None (0, False)])))
       (mT1 (mTimesAndSpeed (ex_mixer 2 False
          [ex_source [ex_left, ex_right] None (0, False),
           ex_source [ex_empty] None (0, True),
           ex_source [ex_mono] None (0, False)])))
   \<and> map_sum id (\<lambda>(n, m'). (n, mTimesAndSpeed m'))
        (Process ex_acquire
          (ex_mixer 2 False
            [ex_source [ex_left, ex_right] None (0, False),
             ex_source [ex_empty] None (0, True),
             ex_source [ex_mono] None (0, False)]) 1) =
       Inr (0, \<lparr> mT0 = 98, mT1 = 100, mSpeed = 1, mTime = 103 \<rparr>)
   \<and> \<not> (103::real) \<le> max 98 100"
  unfolding ex_run_abort by (simp add: ex_mixer_def)

text \<open>
  Claim C3, amended. For every call of \<^verbatim>\<open>Process\<close> that runs through the loop over
  the sources and returns, on a mixer whose current time lies between the smaller and
  the larger of \<^verbatim>\<open>mT0\<close> and \<^verbatim>\<open>mT1\<close> at entry: the bounds are unchanged, the current
  time after the call lies between them again, and it is not past \<^verbatim>\<open>mT1\<close> in the
  direction of play.
\<close>

theorem Process_time_in_range:
  assumes "ranThrough acquire m maxToProcess"
    and "Process acquire m maxToProcess = Inr (n, m')"
    and "min (mT0 (mTimesAndSpeed m)) (mT1 (mTimesAndSpeed m)) \<le> mTime (mTimesAndSpeed m)"
    and "mTime (mTimesAndSpeed m) \<le> max (mT0 (mTimesAndSpeed m)) (mT1 (mTimesAndSpeed m))"
  shows "mT0 (mTimesAndSpeed m') = mT0 (mTimesAndSpeed m)
       \<and> mT1 (mTimesAndSpeed m') = mT1 (mTimesAndSpeed m)
       \<and> min (mT0 (mTimesAndSpeed m')) (mT1 (mTimesAndSpeed m')) \<le> mTime (mTimesAndSpeed m')
       \<and> mTime (mTimesAndSpeed m') \<le> max (mT0 (mTimesAndSpeed m')) (mT1 (mTimesAndSpeed m'))
       \<and> (if mT0 (mTimesAndSpeed m) > mT1 (mTimesAndSpeed m)
          then mT1 (mTimesAndSpeed m) \<le> mTime (mTimesAndSpeed m')
          else mTime (mTimesAndSpeed m') \<le> mT1 (mTimesAndSpeed m))"
proof -
  from assms(1) obtain maxOut m1 where
    run: "Process_sources acquire maxToProcess [] (mSources m) 0 (Clear m) =
            Inr (RanThrough maxOut m1)"
    by (rule ranThroughE)
  note p = Process_ranThrough [OF run assms(2)]
  from assms(3,4) show ?thesis
    unfolding p by (auto simp: std_clamp_def min_def max_def split: if_splits)
qed

theorem Process_time_in_range_witness:
  "ranThrough ex_acquire (ex_mixer 2 False
        [ex_source [ex_left, ex_right] None (0, False), ex_source [ex_mono] None (0, False)]) 1
   \<and> map_sum id (\<lambda>(n, m'). (n, mTimesAndSpeed m'))
        (Process ex_acquire (ex_mixer 2 False
          [ex_source [ex_left, ex_right] None (0, False), ex_source [ex_mono] None (0, False)]) 1) =
       Inr (1, \<lparr> mT0 = 98, mT1 = 100, mSpeed = 1, mTime = 100 \<rparr>)
   \<and> min (98::real) 100 \<le> 98 \<and> (98::real) \<le> max 98 100
   \<and> min (98::real) 100 \<le> 100 \<and> (100::real) \<le> max 98 100"
proof -
  let ?m = "ex_mixer 2 False
        [ex_source [ex_left, ex_right] None (0, False), ex_source [ex_mono] None (0, False)]"
  let ?m' = "(ex_mixer 2 False
        [ex_source [ex_left, ex_right] None (1, False),
         ex_source [ex_mono] None (1, False)])
        \<lparr> mTimesAndSpeed := \<lparr> mT0 = 98, mT1 = 100, mSpeed = 1, mTime = 100 \<rparr>,
          mFloatBuffers := [[1, 1], [2, 2]],
          mTemp := [[2], [3]] \<rparr>"
  have ran: "ranThrough ex_acquire ?m 1"
    by (simp add: ranThrough_def ex_defs run_defs upt2 numeral_2_eq_2)
  have lo: "min (mT0 (mTimesAndSpeed ?m)) (mT1 (mTimesAndSpeed ?m)) \<le> mTime (mTimesAndSpeed ?m)"
    and hi: "mTime (mTimesAndSpeed ?m) \<le> max (mT0 (mTimesAndSpeed ?m)) (mT1 (mTimesAndSpeed ?m))"
    by (simp_all add: ex_mixer_def)
  from Process_time_in_range [OF ran ex_run_through lo hi]
  have "min (98::real) 100 \<le> 100 \<and> (100::real) \<le> max 98 100"
    by simp
  moreover have "map_sum id (\<lambda>(n, m'). (n, mTimesAndSpeed m')) (Process ex_acquire ?m 1) =
       Inr (1, \<lparr> mT0 = 98, mT1 = 100, mSpeed = 1, mTime = 100 \<rparr>)"
    unfolding ex_run_through by simp
  ultimately show ?thesis
    using ran by simp
qed

text \<open>
  Claim C9. \<^verbatim>\<open>Process\<close> does not move the current time against the direction of
  play: for every call that runs through the loop over the sources and returns, when
  \<^verbatim>\<open>mT0 \<le> mT1\<close> and the current time at entry lies in \<open>[mT0, mT1]\<close>, the current time
  after the call is at least the one at entry; when \<^verbatim>\<open>mT0 > mT1\<close> and the current
  time at entry lies in \<open>[mT1, mT0]\<close>, it is at most the one at entry.
\<close>

theorem Process_time_monotone:
  assumes "ranThrough acquire m maxToProcess"
    and "Process acquire m maxToProcess = Inr (n, m')"
  shows "(mT0 (mTimesAndSpeed m) \<le> mT1 (mTimesAndSpeed m)
          \<and> mT0 (mTimesAndSpeed m) \<le> mTime (mTimesAndSpeed m)
          \<and> mTime (mTimesAndSpeed m) \<le> mT1 (mTimesAndSpeed m)
          \<longrightarrow> mTime (mTimesAndSpeed m) \<le> mTime (mTimesAndSpeed m'))
       \<and> (mT0 (mTimesAndSpeed m) > mT1 (mTimesAndSpeed m)
          \<and> mT1 (mTimesAndSpeed m) \<le> mTime (mTimesAndSpeed m)
          \<and> mTime (mTimesAndSpeed m) \<le> mT0 (mTimesAndSpeed m)
          \<longrightarrow> mTime (mTimesAndSpeed m') \<le> mTime (mTimesAndSpeed m))"
proof -
  from assms(1) obtain maxOut m1 where
    run: "Process_sources acquire maxToProcess [] (mSources m) 0 (Clear m) =
            Inr (RanThrough maxOut m1)"
    by (rule ranThroughE)
  note p = Process_ranThrough [OF run assms(2)]
  show ?thesis
    unfolding p by (auto simp: std_clamp_def split: if_splits)
qed

theorem Process_time_monotone_witness:
  "ranThrough ex_acquire (ex_mixer 2 False
        [ex_source [ex_left, ex_right] None (0, False), ex_source [ex_mono] None (0, False)]) 1
   \<and> map_sum id (\<lambda>(n, m'). (n, mTimesAndSpeed m'))
        (Process ex_acquire (ex_mixer 2 False
          [ex_source [ex_left, ex_right] None (0, False), ex_source [ex_mono] None (0, False)]) 1) =
       Inr (1, \<lparr> mT0 = 98, mT1 = 100, mSpeed = 1, mTime = 100 \<rparr>)
   \<and> (98::real) \<le> 100
   \<and> ranThrough ex_acquire
        ((ex_mixer 2 False [ex_source [ex_mono] None (0, False)])
           \<lparr> mTimesAndSpeed := \<lparr> mT0 = 100, mT1 = 98, mSpeed = 1, mTime = 99 \<rparr> \<rparr>) 1
   \<and> map_sum id (\<lambda>(n, m'). (n, mTimesAndSpeed m'))
        (Process ex_acquire
          ((ex_mixer 2 False [ex_source [ex_mono] None (0, False)])
             \<lparr> mTimesAndSpeed := \<lparr> mT0 = 100, mT1 = 98, mSpeed = 1, mTime = 99 \<rparr> \<rparr>) 1) =
       Inr (1, \<lparr> mT0 = 100, mT1 = 98, mSpeed = 1, mTime = 99 \<rparr>)
   \<and> (99::real) \<le> 99"
proof -
  let ?m = "ex_mixer 2 False
        [ex_source [ex_left, ex_right] None (0, False), ex_source [ex_mono] None (0, False)]"
  let ?b = "(ex_mixer 2 False [ex_source [ex_mono] None (0, False)])
           \<lparr> mTimesAndSpeed := \<lparr> mT0 = 100, mT1 = 98, mSpeed = 1, mTime = 99 \<rparr> \<rparr>"
  have ran: "ranThrough ex_acquire ?m 1"
    by (simp add: ranThrough_def ex_defs run_defs upt2 numeral_2_eq_2)
  have ranb: "ranThrough ex_acquire ?b 1"
    by (simp add: ranThrough_def ex_defs run_defs upt2 numeral_2_eq_2)
  from Process_time_monotone [OF ran ex_run_through]
  have fwd: "(98::real) \<le> 100"
    by (simp add: ex_mixer_def)
  from Process_time_monotone [OF ranb ex_run_backwards]
  have bwd: "(99::real) \<le> 99"
    by (simp add: ex_mixer_def)
  have run: "map_sum id (\<lambda>(n, m'). (n, mTimesAndSpeed m')) (Process ex_acquire ?m 1) =
       Inr (1, \<lparr> mT0 = 98, mT1 = 100, mSpeed = 1, mTime = 100 \<rparr>)"
    unfolding ex_run_through by simp
  have runb: "map_sum id (\<lambda>(n, m'). (n, mTimesAndSpeed m')) (Process ex_acquire ?b 1) =
       Inr (1, \<lparr> mT0 = 100, mT1 = 98, mSpeed = 1, mTime = 99 \<rparr>)"
    unfolding ex_run_backwards by simp
  from ran ranb fwd bwd run runb show ?thesis
    by blast
qed

subsection \<open>Process: the channels of a source that are mixed\<close>

text \<open>
  Claim C5 does not hold as stated: the channels of a source that are mixed are not
  bounded by the output channels. In
  the example the mixer has one output channel and its source has two channels, left
  and right, holding the samples 1 and 2: both are visited, and the output holds their
  sum 3, where the left channel alone gives 1.
\<close>

theorem mixSource_more_than_output_channels:
  "length (mixedChannels (ex_mixer 1 False [ex_source [ex_left, ex_right] None (0, False)])
       (ex_source [ex_left, ex_right] None (0, False))) = 2
   \<and> min (MixerSource_Channels (ex_source [ex_left, ex_right] None (0, False)))
        (mNumChannels (ex_mixer 1 False [ex_source [ex_left, ex_right] None (0, False)])) = 1
   \<and> map_sum id (\<lambda>(n, m'). mTemp m')
        (Process ex_acquire
           (ex_mixer 1 False [ex_source [ex_left, ex_right] None (0, False)]) 1) = Inr [[3]]
   \<and> map_sum id (\<lambda>(n, m'). mTemp m')
        (Process ex_acquire
           (ex_mixer 1 False [ex_source [ex_left] None (0, False)]) 1) = Inr [[1]]"
proof -
  have "map_sum id (\<lambda>(n, m'). mTemp m')
        (Process ex_acquire
           (ex_mixer 1 False [ex_source [ex_left, ex_right] None (0, False)]) 1) = Inr [[3]]"
    unfolding ex_run_mono_output by simp
  moreover have "map_sum id (\<lambda>(n, m'). mTemp m')
        (Process ex_acquire
           (ex_mixer 1 False [ex_source [ex_left] None (0, False)]) 1) = Inr [[1]]"
    by (simp add: ex_defs run_defs upt2 numeral_2_eq_2)
  ultimately show ?thesis
    by (simp add: mixedChannels_def MixerSource_Channels_def ex_source_def ex_mixer_def)
qed

text \<open>The contribution of a channel in closed form: with a map, the row of the
  channel decides; without one, the channel type does.\<close>

lemma contribution_mapped:
  assumes "mpMap source = Some rows" and "j < length rows"
    and "numChannels \<le> length (rows ! j)" and "c < numChannels"
  shows "contribution numChannels applyTrackGains buffers source j c i =
           (if rows ! j ! c
            then buffers ! j ! i *
                   (if applyTrackGains then GetChannelGain (mChannels source ! j) c else 1)
            else 0)"
  using assms
  by (simp add: contribution_def MixerSource_MixerSpec_def nth_checked_def findChannelFlags_def)

lemma contribution_default:
  assumes "mpMap source = None" and "c < numChannels"
  shows "contribution numChannels applyTrackGains buffers source j c i =
           (if (case GetChannel (mChannels source ! j) of
                  LeftChannel \<Rightarrow> c = 0
                | RightChannel \<Rightarrow> c = (if numChannels \<ge> 2 then 1 else 0)
                | MonoChannel \<Rightarrow> True
                | UnknownChannel k \<Rightarrow> True)
            then buffers ! j ! i *
                   (if applyTrackGains then GetChannelGain (mChannels source ! j) c else 1)
            else 0)"
  using assms
  by (cases "GetChannel (mChannels source ! j)")
     (auto simp: contribution_def MixerSource_MixerSpec_def findChannelFlags_def setFlag_def
        nth_list_update)

text \<open>The channels of a source from the third on do not matter to the mixing of the
  source.\<close>

lemma mixSource_first_two_channels:
  assumes "length (mFloatBuffers m) = 2"
  shows "mixedChannels m source = [0..<min (MixerSource_Channels source) 2]
       \<and> length (mixedChannels m source) = min (MixerSource_Channels source) 2
       \<and> mixSource m source len =
           mixSource m (source\<lparr> mChannels := take 2 (mChannels source) \<rparr>) len"
proof (intro conjI)
  show ch: "mixedChannels m source = [0..<min (MixerSource_Channels source) 2]"
    by (simp add: mixedChannels_def assms)
  then show "length (mixedChannels m source) = min (MixerSource_Channels source) 2"
    by simp
  have same: "mixedChannels m (source\<lparr> mChannels := take 2 (mChannels source) \<rparr>) =
      mixedChannels m source"
    by (simp add: mixedChannels_def MixerSource_Channels_def assms)
  have "mixChannels m source len (mixedChannels m source) =
      mixChannels m (source\<lparr> mChannels := take 2 (mChannels source) \<rparr>) len
        (mixedChannels m source)"
  proof (rule mixChannels_cong)
    fix m' :: "'a Mixer" and j
    assume "j \<in> set (mixedChannels m source)"
    then have "j < 2" by (simp add: ch)
    then show "mixChannel m' source len j =
        mixChannel m' (source\<lparr> mChannels := take 2 (mChannels source) \<rparr>) len j"
      by (simp add: mixChannel_def MixerSource_GetChannel_def MixerSource_MixerSpec_def
          nth_checked_def)
  qed
  then show "mixSource m source len =
      mixSource m (source\<lparr> mChannels := take 2 (mChannels source) \<rparr>) len"
    by (simp add: mixSource_def same)
qed

text \<open>
  Claim C5, amended. In \<^verbatim>\<open>Process\<close>, for every source acquired from, the channels
  accumulated into the output buffers are the channels \<open>j\<close> below the smaller of the
  channels of the source and 2, the number of channels of the float buffers that the
  constructor allocates, whatever the number of output channels: each of them is added,
  times its gain, to every output channel that its channel flags select (to none when
  no flag is set), and the channels from the third on contribute nothing. Formally,
  for a mixer with two float buffers and an \<^verbatim>\<open>Acquire\<close> that keeps their number, after
  a call that returns, sample \<open>i\<close> of output channel \<open>c\<close> of \<^verbatim>\<open>mTemp\<close> is the sum, over
  the sources acquired from, of the contributions of the channels \<open>j < min n 2\<close> of the
  source (\<open>n\<close> its channels) when \<open>i\<close> is below the count acquired, and of nothing
  otherwise; when the loop ran through, the sources acquired from are all the sources.
\<close>

theorem Process_accumulates_two_channels:
  assumes "\<forall>source buffers bound tas.
      length (fst (snd (snd (acquire source buffers bound tas)))) = length buffers"
    and "length (mFloatBuffers m) = 2"
    and "Process acquire m maxToProcess = Inr (n, m')"
    and "c < mNumChannels m" and "c < length (mTemp m)" and "i < length (mTemp m ! c)"
  shows "mTemp m' ! c ! i =
           (\<Sum>(buffers, source, result)\<leftarrow>
               acquiredFrames acquire maxToProcess (mSources m) (Clear m).
              if i < result
              then (\<Sum>j<min (MixerSource_Channels source) 2.
                      contribution (mNumChannels m) (mApplyTrackGains m) buffers source j c i)
              else 0)
         \<and> (if ranThrough acquire m maxToProcess
            then map (\<lambda>(buffers, source, result). mChannels source)
                   (acquiredFrames acquire maxToProcess (mSources m) (Clear m)) =
                 map mChannels (mSources m)
            else n = 0)"
proof
  from assms(3) obtain e m1 maxOut where
    run: "Process_sources acquire maxToProcess [] (mSources m) 0 (Clear m) = Inr e"
    and e: "e = Returned0 m1 \<or> e = RanThrough maxOut m1"
    and m': "m' = m1 \<or> (\<exists>t. m' = m1\<lparr> mTimesAndSpeed := t \<rparr>)"
    by (auto simp: Process_def Let_def split: if_splits sum.splits loop_end.splits)
  have main: "mTemp m1 ! c ! i = mTemp (Clear m) ! c ! i +
           (\<Sum>(buffers, source, result)\<leftarrow>
               acquiredFrames acquire maxToProcess (mSources m) (Clear m).
              if i < result
              then (\<Sum>j<min (MixerSource_Channels source) 2.
                      contribution (mNumChannels (Clear m)) (mApplyTrackGains (Clear m))
                        buffers source j c i)
              else 0)"
    by (rule Process_sources_nth [OF assms(1) run e])
       (use assms(2,4-6) in \<open>simp_all add: Clear_def\<close>)
  have nc: "mNumChannels (Clear m) = mNumChannels m"
    and ag: "mApplyTrackGains (Clear m) = mApplyTrackGains m"
    by (simp_all add: Clear_def)
  have zero: "mTemp (Clear m) ! c ! i = 0"
    using assms(5,6) by (simp add: Clear_def)
  have "mTemp m' = mTemp m1" using m' by auto
  with main [unfolded nc ag zero]
  show "mTemp m' ! c ! i =
           (\<Sum>(buffers, source, result)\<leftarrow>
               acquiredFrames acquire maxToProcess (mSources m) (Clear m).
              if i < result
              then (\<Sum>j<min (MixerSource_Channels source) 2.
                      contribution (mNumChannels m) (mApplyTrackGains m) buffers source j c i)
              else 0)"
    by simp
next
  show "if ranThrough acquire m maxToProcess
        then map (\<lambda>(buffers, source, result). mChannels source)
               (acquiredFrames acquire maxToProcess (mSources m) (Clear m)) =
             map mChannels (mSources m)
        else n = 0"
  proof (cases "ranThrough acquire m maxToProcess")
    case True
    then obtain maxOut m1 where
      "Process_sources acquire maxToProcess [] (mSources m) 0 (Clear m) =
         Inr (RanThrough maxOut m1)"
      by (rule ranThroughE)
    from acquiredFrames_sources [OF this] True show ?thesis by simp
  next
    case False
    with assms(3) show ?thesis
      by (auto simp: Process_def ranThrough_def Let_def
          split: if_splits sum.splits loop_end.splits)
  qed
qed

theorem Process_accumulates_two_channels_witness:
  "(\<forall>source buffers bound tas.
      length (fst (snd (snd (ex_acquire source buffers bound tas)))) = length buffers)
   \<and> length (mFloatBuffers (ex_mixer 1 False [ex_source [ex_left, ex_right] None (0, False)])) = 2
   \<and> map_sum id (\<lambda>(n, m'). (n, mTemp m'))
        (Process ex_acquire
           (ex_mixer 1 False [ex_source [ex_left, ex_right] None (0, False)]) 1) =
       Inr (1, [[3]])
   \<and> acquiredFrames ex_acquire 1
        (mSources (ex_mixer 1 False [ex_source [ex_left, ex_right] None (0, False)]))
        (Clear (ex_mixer 1 False [ex_source [ex_left, ex_right] None (0, False)])) =
      [([[1, 1], [2, 2]], ex_source [ex_left, ex_right] None (1, False), 1)]
   \<and> (\<Sum>j<min (MixerSource_Channels (ex_source [ex_left, ex_right] None (1, False))) 2.
         contribution 1 False [[1, 1], [2, 2]]
           (ex_source [ex_left, ex_right] None (1, False)) j 0 0) = 3
   \<and> map_sum id (\<lambda>(n, m'). (n, mTemp m'))
        (Process ex_acquire
           (ex_mixer 4 False [ex_source [ex_left, ex_right, ex_mono] None (0, False)]) 1) =
       Inr (1, [[1], [2], [0], [0]])
   \<and> (\<Sum>j<min (MixerSource_Channels (ex_source [ex_left, ex_right, ex_mono] None (1, False))) 2.
         contribution 4 False [[1, 1], [2, 2]]
           (ex_source [ex_left, ex_right, ex_mono] None (1, False)) j 2 0) = 0"
proof -
  let ?m = "ex_mixer 1 False [ex_source [ex_left, ex_right] None (0, False)]"
  let ?m' = "(ex_mixer 1 False [ex_source [ex_left, ex_right] None (1, False)])
        \<lparr> mTimesAndSpeed := \<lparr> mT0 = 98, mT1 = 100, mSpeed = 1, mTime = 100 \<rparr>,
          mFloatBuffers := [[1, 1], [2, 2]],
          mTemp := [[3]] \<rparr>"
  let ?q = "ex_mixer 4 False [ex_source [ex_left, ex_right, ex_mono] None (0, False)]"
  have two: "length (mFloatBuffers ?m) = 2" and twoq: "length (mFloatBuffers ?q) = 2"
    by (simp_all add: ex_mixer_def)
  have c: "0 < mNumChannels ?m" "0 < length (mTemp ?m)" "0 < length (mTemp ?m ! 0)"
    by (simp_all add: ex_mixer_def)
  have cq: "2 < mNumChannels ?q" "2 < length (mTemp ?q)" "0 < length (mTemp ?q ! 2)"
    by (simp_all add: ex_mixer_def)
  have framesq: "acquiredFrames ex_acquire 1 (mSources ?q) (Clear ?q) =
      [([[1, 1], [2, 2]], ex_source [ex_left, ex_right, ex_mono] None (1, False), 1)]"
    by (simp add: ex_defs run_defs upt2 numeral_2_eq_2 numeral_eq_Suc)
  from Process_accumulates_two_channels
    [OF ex_acquire_keeps_buffers two ex_run_mono_output c]
  have s3: "(\<Sum>j<min (MixerSource_Channels (ex_source [ex_left, ex_right] None (1, False))) 2.
         contribution 1 False [[1, 1], [2, 2]]
           (ex_source [ex_left, ex_right] None (1, False)) j 0 0) = 3"
    unfolding ex_frames_mono_output by (simp add: ex_mixer_def)
  from Process_accumulates_two_channels
    [OF ex_acquire_keeps_buffers twoq ex_run_three_channels cq]
  have s0: "(\<Sum>j<min (MixerSource_Channels
                (ex_source [ex_left, ex_right, ex_mono] None (1, False))) 2.
         contribution 4 False [[1, 1], [2, 2]]
           (ex_source [ex_left, ex_right, ex_mono] None (1, False)) j 2 0) = 0"
    unfolding framesq by (simp add: ex_mixer_def)
  have r1: "map_sum id (\<lambda>(n, m'). (n, mTemp m')) (Process ex_acquire ?m 1) = Inr (1, [[3]])"
    unfolding ex_run_mono_output by simp
  have r2: "map_sum id (\<lambda>(n, m'). (n, mTemp m')) (Process ex_acquire ?q 1) =
      Inr (1, [[1], [2], [0], [0]])"
    unfolding ex_run_three_channels by simp
  from ex_acquire_keeps_buffers two r1 ex_frames_mono_output s3 r2 s0 show ?thesis
    by blast
qed

end
